theory Spec2Isabelle
  imports Complex_Main "HOL-Library.Multiset"
begin

section \<open>Errors\<close>

text \<open>
  The Python exceptions the modelled code can raise, as values.  \<open>PetscError\<close> stands for
  \<^verbatim>\<open>PETSc.Error\<close>, raised by petsc4py when a PETSc call fails (nonconforming sizes, a row
  out of range).  A computation that may raise returns \<open>error + 'a\<close>, \<open>Inl\<close> the exception.
\<close>

datatype error =
    NameError
  | AttributeError
  | IndexError
  | ValueError
  | AssertionError
  | NotImplementedError
  | RuntimeError
  | PetscError

definition bind_err :: "error + 'a \<Rightarrow> ('a \<Rightarrow> error + 'b) \<Rightarrow> error + 'b" where
  "bind_err m f = (case m of Inl e \<Rightarrow> Inl e | Inr v \<Rightarrow> f v)"

section \<open>firedrake/halo.py\<close>

text \<open>
  The value of a Python attribute that holds either \<^verbatim>\<open>None\<close> or a numpy integer array.
\<close>

datatype pyval = PyNone | PyArray "int list"

text \<open>
  A PETSc star forest as \<^verbatim>\<open>Halo\<close> reads it: its type name (\<^verbatim>\<open>sf.getType()\<close>;
  \<^verbatim>\<open>sf.Type.BASIC\<close> is the string \<^verbatim>\<open>basic\<close>) and the size of its communicator.
\<close>

record sf =
  sf_type :: string
  sf_comm_size :: nat

text \<open>
  The DM as \<^verbatim>\<open>Halo.__init__\<close> reads it: the two sections and the star forest that
  \<^verbatim>\<open>createDefaultSF\<close> builds from them.  The sections are opaque (\<open>'sec\<close>).
\<close>

record 'sec dm =
  getDefaultSection :: 'sec
  getDefaultGlobalSection :: 'sec
  getDefaultSF :: sf

text \<open>
  A \<^verbatim>\<open>Halo\<close> object.  \<open>gnn2unn\<close> is the attribute \<^verbatim>\<open>_gnn2unn\<close>: \<open>None\<close> while the
  attribute has not been assigned, \<open>Some v\<close> once it holds the Python value \<open>v\<close>.
\<close>

record halo =
  halo_sf :: sf
  gnn2unn :: "pyval option"

text \<open>
  \<^verbatim>\<open>Halo.__init__\<close> (halo.py, lines 45-56).  Parameters standing for code outside the file:
  \<open>setFromOptions\<close> (the star forest after the run-time options have been applied),
  \<open>comm_size\<close> (\<^verbatim>\<open>op2.MPI.comm.size\<close>) and \<open>make_global_numbering\<close>
  (\<^verbatim>\<open>dmplex.make_global_numbering\<close>, which returns an integer array).
\<close>

definition Halo_init ::
  "(sf \<Rightarrow> sf) \<Rightarrow> nat \<Rightarrow> ('sec \<Rightarrow> 'sec \<Rightarrow> int list) \<Rightarrow> 'sec dm \<Rightarrow> error + halo" where
  "Halo_init setFromOptions comm_size make_global_numbering d =
     (let lsec = getDefaultSection d;
          gsec = getDefaultGlobalSection d;
          self0 = \<lparr>halo_sf = setFromOptions (getDefaultSF d), gnn2unn = None\<rparr>
      in if sf_type (halo_sf self0) \<noteq> ''basic'' then Inl RuntimeError
         else
           let self1 = (if comm_size = 1 then self0\<lparr>gnn2unn := Some PyNone\<rparr> else self0);
               self2 = self1\<lparr>gnn2unn := Some (PyArray (make_global_numbering lsec gsec))\<rparr>
           in Inr self2)"

text \<open>The property \<^verbatim>\<open>Halo.global_to_petsc_numbering\<close> (lines 96-100).\<close>

definition global_to_petsc_numbering :: "halo \<Rightarrow> error + pyval" where
  "global_to_petsc_numbering self =
     (case gnn2unn self of None \<Rightarrow> Inl AttributeError | Some v \<Rightarrow> Inr v)"

section \<open>demos/subspace_correction/pulley.py: the data\<close>

text \<open>
  A function space as the demo reads it: the mesh it lives on, the element family and
  degree, \<^verbatim>\<open>V.rank\<close>, \<^verbatim>\<open>V.shape\<close>, \<^verbatim>\<open>V.dof_dset.cdim\<close> and \<^verbatim>\<open>V.dim\<close>.
\<close>

record function_space =
  fs_mesh :: string
  fs_family :: string
  fs_degree :: nat
  rank :: int
  shape :: "nat list"
  cdim :: nat
  dim :: nat

text \<open>
  The value a boundary condition prescribes: the expression given by the caller, or the
  result of \<^verbatim>\<open>Function(P1).interpolate(as_ufl(arg))\<close>, kept symbolic.
\<close>

datatype bc_value = Expr string | Interpolate function_space bc_value

text \<open>
  \<^verbatim>\<open>DirichletBC(V, g, sub_domain, method)\<close>, kept symbolic.  The node set of a boundary
  condition (\<^verbatim>\<open>bc.nodes\<close>) is computed by Firedrake; the model takes it as a parameter.
\<close>

datatype bc = DirichletBC function_space bc_value "nat list" string

fun function_arg :: "bc \<Rightarrow> bc_value" where
  "function_arg (DirichletBC V g sd meth) = g"

fun sub_domain :: "bc \<Rightarrow> nat list" where
  "sub_domain (DirichletBC V g sd meth) = sd"

fun bc_method :: "bc \<Rightarrow> string" where
  "bc_method (DirichletBC V g sd meth) = meth"

text \<open>
  A bilinear form: its domain (\<^verbatim>\<open>a.ufl_domain()\<close>), the spaces of its test and trial
  function (\<^verbatim>\<open>a.arguments()\<close>) and its integrand, which the model never inspects.
\<close>

record form =
  ufl_domain :: string
  test_space :: function_space
  trial_space :: function_space
  integrand :: string

text \<open>
  The argument \<^verbatim>\<open>bcs\<close> of the constructor: \<^verbatim>\<open>None\<close>, one boundary condition (on which
  \<^verbatim>\<open>tuple(bcs)\<close> raises the \<^verbatim>\<open>TypeError\<close> the code catches) or an iterable of them.
\<close>

datatype bcs_arg = BcsNone | BcsOne bc | BcsMany "bc list"

text \<open>
  What \<^verbatim>\<open>impl.patches\<close> returns for each kind of patch data: an object with the arrays
  \<^verbatim>\<open>offset\<close> and \<^verbatim>\<open>value\<close>; patch \<open>i\<close> owns \<^verbatim>\<open>value[offset[i]:offset[i+1]]\<close>.
\<close>

record csr =
  offset :: "nat list"
  csr_value :: "nat list"

text \<open>The attributes \<^verbatim>\<open>SubspaceCorrectionPrec.__init__\<close> sets on \<^verbatim>\<open>self\<close>.\<close>

record ctx =
  self_a :: form
  self_mesh :: string
  self_V :: function_space
  self_P1 :: function_space
  self_bcs :: "bc list"
  self_cells :: csr
  self_facets :: csr
  dof_patches :: csr
  glob_patches :: csr
  bc_patches :: csr

section \<open>SubspaceCorrectionPrec.__init__\<close>

text \<open>
  The coarse space (lines 43-49): \<^verbatim>\<open>FunctionSpace(mesh, "CG", 1)\<close> for rank 0,
  \<^verbatim>\<open>VectorFunctionSpace(mesh, "CG", 1, dim=V.shape[0])\<close> for rank 1 after the assertion
  on the shape, \<^verbatim>\<open>NotImplementedError\<close> otherwise.  The two constructors are Firedrake's
  and are parameters: \<open>FunctionSpace mesh family degree\<close> and
  \<open>VectorFunctionSpace mesh family degree dim\<close>.
\<close>

definition coarse_space ::
  "(string \<Rightarrow> string \<Rightarrow> nat \<Rightarrow> function_space)
   \<Rightarrow> (string \<Rightarrow> string \<Rightarrow> nat \<Rightarrow> nat \<Rightarrow> function_space)
   \<Rightarrow> string \<Rightarrow> function_space \<Rightarrow> error + function_space" where
  "coarse_space FunctionSpace VectorFunctionSpace mesh V =
     (if rank V = 0 then Inr (FunctionSpace mesh ''CG'' 1)
      else if rank V = 1 then
        (if length (shape V) = 1
         then Inr (VectorFunctionSpace mesh ''CG'' 1 (shape V ! 0))
         else Inl AssertionError)
      else Inl NotImplementedError)"

text \<open>
  The boundary nodes (lines 51-60): no nodes for \<^verbatim>\<open>None\<close>; otherwise
  \<^verbatim>\<open>numpy.unique(numpy.concatenate([bc.nodes for bc in bcs]))\<close>, the sorted distinct
  nodes.  \<^verbatim>\<open>numpy.concatenate\<close> raises \<^verbatim>\<open>ValueError\<close> on an empty sequence.
\<close>

definition bcs_tuple :: "bcs_arg \<Rightarrow> bc list" where
  "bcs_tuple arg = (case arg of BcsNone \<Rightarrow> [] | BcsOne b \<Rightarrow> [b] | BcsMany bs \<Rightarrow> bs)"

definition bc_nodes :: "(bc \<Rightarrow> nat list) \<Rightarrow> bcs_arg \<Rightarrow> error + nat list" where
  "bc_nodes nodes arg =
     (case arg of
        BcsNone \<Rightarrow> Inr []
      | _ \<Rightarrow> (if bcs_tuple arg = [] then Inl ValueError
              else Inr (sort (remdups (concat (map nodes (bcs_tuple arg)))))))"

text \<open>
  \<^verbatim>\<open>SubspaceCorrectionPrec.__init__\<close> (lines 35-72).  \<open>get_cell_facet_patches\<close> and
  \<open>get_dof_patches\<close> stand for the functions of \<^verbatim>\<open>impl.patches\<close>, which receive the
  mesh's DM, the section and cell-node map of \<open>V\<close>, the boundary nodes and the cell and
  facet patches.
\<close>

definition SubspaceCorrectionPrec_init ::
  "(string \<Rightarrow> string \<Rightarrow> nat \<Rightarrow> function_space)
   \<Rightarrow> (string \<Rightarrow> string \<Rightarrow> nat \<Rightarrow> nat \<Rightarrow> function_space)
   \<Rightarrow> (bc \<Rightarrow> nat list)
   \<Rightarrow> (string \<Rightarrow> csr \<times> csr)
   \<Rightarrow> (string \<Rightarrow> function_space \<Rightarrow> nat list \<Rightarrow> csr \<Rightarrow> csr \<Rightarrow> csr \<times> csr \<times> csr)
   \<Rightarrow> form \<Rightarrow> bcs_arg \<Rightarrow> error + ctx" where
  "SubspaceCorrectionPrec_init FunctionSpace VectorFunctionSpace nodes
       get_cell_facet_patches get_dof_patches a arg =
     (let mesh = ufl_domain a;
          V = test_space a
      in if V \<noteq> trial_space a then Inl AssertionError
         else
           bind_err (coarse_space FunctionSpace VectorFunctionSpace mesh V) (\<lambda>P1.
           bind_err (bc_nodes nodes arg) (\<lambda>bcs.
             let (cells, facets) = get_cell_facet_patches mesh;
                 (d, g, b) = get_dof_patches mesh V bcs cells facets
             in Inr \<lparr>self_a = a, self_mesh = mesh, self_V = V, self_P1 = P1,
                      self_bcs = bcs_tuple arg, self_cells = cells, self_facets = facets,
                      dof_patches = d, glob_patches = g, bc_patches = b\<rparr>)))"

section \<open>numpy arrays and PETSc objects\<close>

text \<open>
  A PETSc \<^verbatim>\<open>Vec\<close>, and the flat numpy array behind \<^verbatim>\<open>vec.array\<close>, is the list of its
  entries.  The scalars are a type parameter with the arithmetic the code uses (zero,
  addition, and for the matrix products multiplication).  Theorems that need the laws of
  exact arithmetic say so in the sort of their scalars; the type \<open>float64\<close> below has the
  rounding addition of \<^verbatim>\<open>PETSc.ScalarType\<close> and none of these laws.  Dof numbers and
  offsets are natural numbers.

  \<open>index xs i\<close> is \<^verbatim>\<open>xs[i]\<close> and \<open>py_slice xs lo hi\<close> is \<^verbatim>\<open>xs[lo:hi]\<close>, which clamps
  instead of raising.
\<close>

definition index :: "'a list \<Rightarrow> nat \<Rightarrow> error + 'a" where
  "index xs i = (if i < length xs then Inr (xs ! i) else Inl IndexError)"

definition py_slice :: "'a list \<Rightarrow> nat \<Rightarrow> nat \<Rightarrow> 'a list" where
  "py_slice xs lo hi = take (hi - lo) (drop lo xs)"

text \<open>\<^verbatim>\<open>c.value[c.offset[i]:c.offset[i+1]]\<close>: the entries of patch \<open>i\<close>.\<close>

definition patch_slice :: "csr \<Rightarrow> nat \<Rightarrow> error + nat list" where
  "patch_slice c i =
     bind_err (index (offset c) i) (\<lambda>lo.
     bind_err (index (offset c) (i + 1)) (\<lambda>hi.
       Inr (py_slice (csr_value c) lo hi)))"

text \<open>
  \<^verbatim>\<open>v.reshape(-1, bsize)\<close>: the rows of \<open>bsize\<close> consecutive entries; \<^verbatim>\<open>ValueError\<close> when
  the length is not a multiple of \<open>bsize\<close> or \<open>bsize\<close> is 0.  The reshaped array is a view:
  the model writes the rows back with \<open>concat\<close>.
\<close>

definition reshape :: "nat \<Rightarrow> 'a list \<Rightarrow> error + 'a list list" where
  "reshape bsize v =
     (if bsize = 0 \<or> length v mod bsize \<noteq> 0 then Inl ValueError
      else Inr (map (\<lambda>r. take bsize (drop (r * bsize) v)) [0..<length v div bsize]))"

text \<open>\<^verbatim>\<open>A[idx]\<close> for an index array: the rows at \<open>idx\<close>, \<^verbatim>\<open>IndexError\<close> out of range.\<close>

definition take_rows :: "'a list list \<Rightarrow> nat list \<Rightarrow> error + 'a list list" where
  "take_rows A idx =
     (if \<exists>p\<in>set idx. length A \<le> p then Inl IndexError else Inr (map (\<lambda>p. A ! p) idx))"

text \<open>
  Broadcasting \<open>R\<close> (rows of the same width) to \<open>n\<close> rows, as an assignment \<^verbatim>\<open>A[:] = R\<close> or
  an in-place addition into an array of \<open>n\<close> rows does: \<open>R\<close> itself when it has \<open>n\<close> rows,
  its only row repeated when it has one, \<^verbatim>\<open>ValueError\<close> otherwise.
\<close>

definition broadcast_rows :: "nat \<Rightarrow> 'a list list \<Rightarrow> error + 'a list list" where
  "broadcast_rows n R =
     (if length R = n then Inr R
      else if length R = 1 then Inr (replicate n (R ! 0))
      else Inl ValueError)"

text \<open>\<^verbatim>\<open>A[idx] = 0\<close>: the rows at \<open>idx\<close> become zero rows of width \<open>bsize\<close>.\<close>

definition set_rows_zero :: "nat \<Rightarrow> 'a::zero list list \<Rightarrow> nat list \<Rightarrow> error + 'a list list" where
  "set_rows_zero bsize A idx =
     (if \<exists>p\<in>set idx. length A \<le> p then Inl IndexError
      else Inr (map (\<lambda>p. if p \<in> set idx then replicate bsize 0 else A ! p) [0..<length A]))"

text \<open>
  \<^verbatim>\<open>A[idx] = S\<close> for in-range \<open>idx\<close> and as many rows \<open>S\<close>: the assignments one after the
  other (numpy leaves the result for a repeated index unspecified; the model takes the
  last).
\<close>

definition assign_rows :: "'a list list \<Rightarrow> nat list \<Rightarrow> 'a list list \<Rightarrow> 'a list list" where
  "assign_rows A idx S = fold (\<lambda>(p, r) A'. A'[p := r]) (zip idx S) A"

text \<open>
  A PETSc \<^verbatim>\<open>Mat\<close>: its sizes, its block size and its entries.  Only the entries at
  \<open>(i, j)\<close> with \<open>i < nrows\<close> and \<open>j < ncols\<close> belong to the matrix.
\<close>

record 'a mat =
  nrows :: nat
  ncols :: nat
  block_size :: nat
  entry :: "nat \<Rightarrow> nat \<Rightarrow> 'a"

text \<open>
  \<^verbatim>\<open>mat.zeroRowsColumns(rows)\<close> (PETSc's \<^verbatim>\<open>MatZeroRowsColumns\<close> with the default
  \<^verbatim>\<open>diag=1\<close>): every entry of the listed rows and columns becomes zero, except the
  diagonal entries of the listed rows, which become 1.  A row outside the matrix is a
  PETSc error.
\<close>

definition zeroRowsColumns :: "nat list \<Rightarrow> 'a::{zero,one} mat \<Rightarrow> error + 'a mat" where
  "zeroRowsColumns rows A =
     (if \<exists>r\<in>set rows. nrows A \<le> r then Inl PetscError
      else Inr (A\<lparr>entry := \<lambda>i j. if i \<in> set rows \<or> j \<in> set rows
                                 then (if i = j then 1 else 0) else entry A i j\<rparr>))"

text \<open>
  \<^verbatim>\<open>A.mult(x, y)\<close> and \<^verbatim>\<open>A.multTranspose(x, y)\<close>: the products \<open>A x\<close> and \<open>A\<^sup>T x\<close> written
  into \<open>y\<close>; vectors of nonconforming sizes are a PETSc error.
\<close>

definition mult :: "'a::semiring_0 mat \<Rightarrow> 'a list \<Rightarrow> 'a list \<Rightarrow> error + 'a list" where
  "mult A x y =
     (if length x \<noteq> ncols A \<or> length y \<noteq> nrows A then Inl PetscError
      else Inr (map (\<lambda>i. \<Sum>j\<leftarrow>[0..<ncols A]. entry A i j * x ! j) [0..<nrows A]))"

definition multTranspose :: "'a::semiring_0 mat \<Rightarrow> 'a list \<Rightarrow> 'a list \<Rightarrow> error + 'a list" where
  "multTranspose A x y =
     (if length x \<noteq> nrows A \<or> length y \<noteq> ncols A then Inl PetscError
      else Inr (map (\<lambda>j. \<Sum>i\<leftarrow>[0..<nrows A]. entry A i j * x ! i) [0..<ncols A]))"

text \<open>
  The loops: \<open>map_err\<close> runs the body on each item and appends its result to a list;
  \<open>fold_err\<close> threads a state through the items.  Both stop at the first exception.
\<close>

fun map_err :: "('a \<Rightarrow> error + 'b) \<Rightarrow> 'a list \<Rightarrow> error + 'b list" where
  "map_err f [] = Inr []"
| "map_err f (x # xs) =
     bind_err (f x) (\<lambda>v. bind_err (map_err f xs) (\<lambda>vs. Inr (v # vs)))"

fun fold_err :: "('a \<Rightarrow> 's \<Rightarrow> error + 's) \<Rightarrow> 'a list \<Rightarrow> 's \<Rightarrow> error + 's" where
  "fold_err f [] s = Inr s"
| "fold_err f (x # xs) s = bind_err (f x s) (fold_err f xs)"

section \<open>Floating-point addition\<close>

text \<open>
  The scalars of the code are IEEE 754 double-precision numbers.  The type \<open>float64\<close> holds
  those of them that are integers: \<open>Float64 n\<close>, for an integer \<open>n\<close> with at most 53
  significant bits, is the number of value \<open>n\<close>.  The sum of two of them is the exact sum
  rounded to 53 significant bits, ties to the even significand, as the default rounding
  mode does; overflow to infinity, beyond \<open>2\<^sup>1\<^sup>0\<^sup>2\<^sup>4\<close>, is not modelled.  \<open>bit_length n\<close> is
  the number of bits of \<open>n\<close>, and \<open>round53\<close> rounds an integer to the nearest one with at most
  53 significant bits.
\<close>

function bit_length :: "nat \<Rightarrow> nat" where
  "bit_length n = (if n = 0 then 0 else Suc (bit_length (n div 2)))"
  by pat_completeness auto
termination
  by (relation "measure id") auto

declare bit_length.simps [simp del]

definition round53 :: "int \<Rightarrow> int" where
  "round53 n =
     (let a = nat \<bar>n\<bar>;
          k = bit_length a
      in if k \<le> 53 then n
         else
           let u = 2 ^ (k - 53);
               q = a div u;
               r = a mod u;
               q' = (if 2 * r < u then q
                     else if u < 2 * r then q + 1
                     else if even q then q else q + 1)
           in sgn n * int (q' * u))"

datatype float64 = Float64 int

instantiation float64 :: "{zero,one,plus}"
begin

definition zero_float64 :: float64 where
  "zero_float64 = Float64 0"

definition one_float64 :: float64 where
  "one_float64 = Float64 1"

fun plus_float64 :: "float64 \<Rightarrow> float64 \<Rightarrow> float64" where
  "plus_float64 (Float64 a) (Float64 b) = Float64 (round53 (a + b))"

instance ..

end

section \<open>SubspaceCorrectionPrec.matrices\<close>

text \<open>
  \<^verbatim>\<open>numpy.dstack([dim*rows + i for i in range(dim)]).flatten()\<close> (line 137): for each row
  \<open>r\<close> in turn the \<open>dim\<close> indices \<open>dim * r + c\<close>.  \<^verbatim>\<open>dstack\<close> of an empty list raises
  \<^verbatim>\<open>ValueError\<close>.
\<close>

definition dstack_flatten :: "nat \<Rightarrow> nat list \<Rightarrow> error + nat list" where
  "dstack_flatten dm rows =
     (if dm = 0 then Inl ValueError
      else Inr (concat (map (\<lambda>r. map (\<lambda>c. dm * r + c) [0..<dm]) rows)))"

text \<open>
  The body of the loop of \<^verbatim>\<open>matrices\<close> (lines 122-139) for patch \<open>i\<close>, with \<open>dm\<close> the value
  of the local variable \<^verbatim>\<open>dim\<close>.  The compiled kernel \<^verbatim>\<open>self.matrix_callable\<close> is the
  parameter \<open>matrix_callable\<close>: called with the cell range, the cells and the dof map of
  the patch (the arrays from the patch's offset on, as the C code receives pointers) and
  the matrix, it gives the entries of the matrix after the fill.  A size that would be
  negative is a PETSc error.
\<close>

definition patch_matrix ::
  "(nat \<Rightarrow> nat \<Rightarrow> nat list \<Rightarrow> 'a mat \<Rightarrow> nat list \<Rightarrow> nat list \<Rightarrow> nat \<Rightarrow> nat \<Rightarrow> 'a)
   \<Rightarrow> nat \<Rightarrow> ctx \<Rightarrow> nat \<Rightarrow> error + 'a::{zero,one} mat" where
  "patch_matrix matrix_callable dm self i =
     bind_err (index (offset (glob_patches self)) (i + 1)) (\<lambda>hi.
     bind_err (index (offset (glob_patches self)) i) (\<lambda>lo.
       if hi < lo then Inl PetscError
       else
         let size = (hi - lo) * dm;
             mat0 = \<lparr>nrows = size, ncols = size, block_size = dm, entry = \<lambda>r c. 0\<rparr>
         in
         bind_err (index (offset (dof_patches self)) i) (\<lambda>mo.
         bind_err (index (offset (self_cells self)) i) (\<lambda>co.
         bind_err (index (offset (self_cells self)) (i + 1)) (\<lambda>c1.
           let mmap = drop mo (csr_value (dof_patches self));
               cells = drop co (csr_value (self_cells self));
               cend = c1 - co;
               mat1 = mat0\<lparr>entry := matrix_callable 0 cend cells mat0 mmap mmap\<rparr>
           in
           bind_err (patch_slice (bc_patches self) i) (\<lambda>rows.
           bind_err (dstack_flatten dm rows) (\<lambda>rows'.
             zeroRowsColumns rows' mat1)))))))"

text \<open>
  \<^verbatim>\<open>SubspaceCorrectionPrec.matrices\<close> (lines 114-140).  The name \<^verbatim>\<open>V\<close> on line 117 is not
  a local variable of the method, so Python looks it up among the module's globals
  (\<open>globals\<close>, from names to the spaces bound to them) and raises \<^verbatim>\<open>NameError\<close> when it
  is not bound.
\<close>

definition matrices ::
  "(nat \<Rightarrow> nat \<Rightarrow> nat list \<Rightarrow> 'a mat \<Rightarrow> nat list \<Rightarrow> nat list \<Rightarrow> nat \<Rightarrow> nat \<Rightarrow> 'a)
   \<Rightarrow> (string \<rightharpoonup> function_space) \<Rightarrow> ctx \<Rightarrow> error + 'a::{zero,one} mat list" where
  "matrices matrix_callable globals self =
     (case globals ''V'' of
        None \<Rightarrow> Inl NameError
      | Some V \<Rightarrow>
          let dm = cdim V
          in map_err (patch_matrix matrix_callable dm self)
               [0..<length (offset (dof_patches self)) - 1])"

section \<open>PatchPC\<close>

text \<open>
  The objects \<^verbatim>\<open>PatchPC.apply\<close> works on: the residual \<^verbatim>\<open>x\<close>, the output \<^verbatim>\<open>y\<close>, the list
  \<^verbatim>\<open>tmp_ys\<close> of local solutions, and the one solver \<^verbatim>\<open>self.ksp\<close> that \<^verbatim>\<open>setUp\<close> creates
  and all patch solves share.  Of the solver the state keeps its operator:
  \<open>ksp_operators\<close> is \<open>None\<close> while no operator is set (after \<^verbatim>\<open>setUp\<close>, and after
  \<^verbatim>\<open>ksp.reset()\<close>) and \<open>Some m\<close> after \<^verbatim>\<open>ksp.setOperators(m, m)\<close>.
\<close>

record 'a vecs =
  vec_x :: "'a list"
  vec_y :: "'a list"
  tmp_ys :: "'a list list"
  ksp_operators :: "'a mat option"

text \<open>
  Lines 273-274: the local right-hand side of a patch.  \<open>b\<close> is the left vector of the
  patch matrix, zeroed; the rows of \<open>x\<close> at the patch's global dofs are assigned to all of
  it, then the rows at the boundary dofs (local numbers) are set to zero.
\<close>

definition build_rhs ::
  "nat \<Rightarrow> 'a::zero list \<Rightarrow> 'a mat \<Rightarrow> nat list \<Rightarrow> nat list \<Rightarrow> error + 'a list" where
  "build_rhs bsize x m patch_dofs bc_dofs =
     (let b = (replicate (nrows m) 0 :: 'a list)
      in bind_err (reshape bsize x) (\<lambda>X.
         bind_err (take_rows X patch_dofs) (\<lambda>G.
         bind_err (reshape bsize b) (\<lambda>B.
         bind_err (broadcast_rows (length B) G) (\<lambda>B1.
         bind_err (set_rows_zero bsize B1 bc_dofs) (\<lambda>B2.
           Inr (concat B2)))))))"

text \<open>
  The body of the first loop (lines 266-276) for the item \<open>(i, m)\<close> of
  \<^verbatim>\<open>enumerate(ctx.matrices)\<close>: the shared solver is reset and given the operator \<open>m\<close>, the
  local vectors are created and filled, and the solver is run.  What \<^verbatim>\<open>self.ksp.solve\<close>
  computes is the parameter \<open>ksp_solve\<close>: from the operator the solver holds, the
  right-hand side and the initial content of the solution vector it gives the solution
  vector after the solve.  A solve without an operator is a PETSc error.
\<close>

definition solve_patch ::
  "('a mat \<Rightarrow> 'a list \<Rightarrow> 'a list \<Rightarrow> 'a list) \<Rightarrow> ctx \<Rightarrow> nat
   \<Rightarrow> nat \<times> 'a mat \<Rightarrow> 'a::zero vecs \<Rightarrow> error + 'a vecs" where
  "solve_patch ksp_solve ctx bsize im s =
     (case im of (i, m) \<Rightarrow>
        let s1 = s\<lparr>ksp_operators := None\<rparr>;
            s2 = s1\<lparr>ksp_operators := Some m\<rparr>;
            ly = replicate (ncols m) 0
        in bind_err (patch_slice (glob_patches ctx) i) (\<lambda>patch_dofs.
           bind_err (patch_slice (bc_patches ctx) i) (\<lambda>bc_dofs.
           bind_err (build_rhs bsize (vec_x s2) m patch_dofs bc_dofs) (\<lambda>b.
             case ksp_operators s2 of
               None \<Rightarrow> Inl PetscError
             | Some A \<Rightarrow> Inr (s2\<lparr>tmp_ys := tmp_ys s2 @ [ksp_solve A b ly]\<rparr>)))))"

text \<open>
  The body of the second loop (lines 279-280) for the item \<open>(i, ly)\<close> of
  \<^verbatim>\<open>enumerate(tmp_ys)\<close>: the rows of \<open>y\<close> at the patch's global dofs, plus the rows of the
  local solution, are written back to \<open>y\<close> at those dofs.
\<close>

definition add_patch ::
  "ctx \<Rightarrow> nat \<Rightarrow> nat \<times> 'a list \<Rightarrow> 'a::plus vecs \<Rightarrow> error + 'a vecs" where
  "add_patch ctx bsize ily s =
     (case ily of (i, ly) \<Rightarrow>
        bind_err (patch_slice (glob_patches ctx) i) (\<lambda>patch_dofs.
        bind_err (reshape bsize (vec_y s)) (\<lambda>Y.
        bind_err (take_rows Y patch_dofs) (\<lambda>G.
        bind_err (reshape bsize ly) (\<lambda>L.
        bind_err (broadcast_rows (length G) L) (\<lambda>L'.
          Inr (s\<lparr>vec_y := concat (assign_rows Y patch_dofs (map2 (map2 (+)) G L'))\<rparr>)))))))"

text \<open>
  The two loops of \<^verbatim>\<open>PatchPC.apply\<close> for a given value \<open>mats\<close> of \<^verbatim>\<open>ctx.matrices\<close>, from the
  state in which \<open>y\<close> has been zeroed.  The second loop does not touch the solver.
\<close>

definition enumerate_py :: "'a list \<Rightarrow> (nat \<times> 'a) list" where
  "enumerate_py xs = zip [0..<length xs] xs"

definition apply_loops ::
  "('a mat \<Rightarrow> 'a list \<Rightarrow> 'a list \<Rightarrow> 'a list) \<Rightarrow> ctx \<Rightarrow> nat \<Rightarrow> 'a mat list
   \<Rightarrow> 'a::{zero,plus} vecs \<Rightarrow> error + 'a vecs" where
  "apply_loops ksp_solve ctx bsize mats s =
     bind_err (fold_err (solve_patch ksp_solve ctx bsize) (enumerate_py mats) s) (\<lambda>s1.
       fold_err (add_patch ctx bsize) (enumerate_py (tmp_ys s1)) s1)"

text \<open>
  \<^verbatim>\<open>PatchPC.apply\<close> (lines 259-280): \<^verbatim>\<open>y.set(0)\<close>, the block size \<^verbatim>\<open>ctx.V.dim\<close>, the cached
  property \<^verbatim>\<open>ctx.matrices\<close> and the two loops.  The result is the final state of the
  vectors and of the solver.  The solver starts as \<^verbatim>\<open>setUp\<close> leaves it, without an
  operator; the operator a previous call left in it is never read, since every patch
  solve resets the solver first.
\<close>

definition PatchPC_apply ::
  "('a mat \<Rightarrow> 'a list \<Rightarrow> 'a list \<Rightarrow> 'a list)
   \<Rightarrow> (nat \<Rightarrow> nat \<Rightarrow> nat list \<Rightarrow> 'a mat \<Rightarrow> nat list \<Rightarrow> nat list \<Rightarrow> nat \<Rightarrow> nat \<Rightarrow> 'a)
   \<Rightarrow> (string \<rightharpoonup> function_space) \<Rightarrow> ctx
   \<Rightarrow> 'a list \<Rightarrow> 'a list \<Rightarrow> error + 'a::{zero,one,plus} vecs" where
  "PatchPC_apply ksp_solve matrix_callable globals ctx x y =
     (let s0 = \<lparr>vec_x = x, vec_y = replicate (length y) 0, tmp_ys = [],
                   ksp_operators = None\<rparr>;
          bsize = dim (self_V ctx)
      in bind_err (matrices matrix_callable globals ctx) (\<lambda>mats.
           apply_loops ksp_solve ctx bsize mats s0))"

section \<open>P1PC\<close>

text \<open>
  The cached properties \<^verbatim>\<open>P1_form\<close>, \<^verbatim>\<open>P1_bcs\<close> and \<^verbatim>\<open>P1_op\<close> (lines 74-91): the form with
  its test and trial function replaced by those of the coarse space, the boundary
  conditions with their data interpolated into the coarse space, and the operator
  assembled from the two, kept symbolic.
\<close>

datatype operator = Assemble form "bc list"

definition P1_form :: "ctx \<Rightarrow> form" where
  "P1_form self = (self_a self)\<lparr>test_space := self_P1 self, trial_space := self_P1 self\<rparr>"

definition P1_bcs :: "ctx \<Rightarrow> bc list" where
  "P1_bcs self =
     map (\<lambda>b. DirichletBC (self_P1 self) (Interpolate (self_P1 self) (function_arg b))
                 (sub_domain b) (bc_method b))
         (self_bcs self)"

definition P1_op :: "ctx \<Rightarrow> operator" where
  "P1_op self = Assemble (P1_form self) (P1_bcs self)"

text \<open>
  What FIAT and PyOP2 compute for the transfer operator: the number of basis functions of
  the element of a space; the array \<^verbatim>\<open>matrix\<close> of line 168, which holds the coarse basis
  functions in terms of the basis of \<open>V\<close> (a two-dimensional numpy array has its shape and
  its entries, and \<^verbatim>\<open>.T\<close> exchanges the two indices); the block shape of the matrix
  argument; and \<^verbatim>\<open>op2.par_loop\<close> followed by \<^verbatim>\<open>mat.assemble()\<close>, which from the kernel, the
  block shape written to the argument and the mesh of the context gives the assembled
  matrix on the sparsity of line 216, with the coarse dofs as rows and the dofs of \<open>V\<close> as
  columns.  A kernel is its name, the shape of its output and its weights.
\<close>

record 'a array2 =
  arr_rows :: nat
  arr_cols :: nat
  arr_at :: "nat \<Rightarrow> nat \<Rightarrow> 'a"

definition array_T :: "'a array2 \<Rightarrow> 'a array2" where
  "array_T A = \<lparr>arr_rows = arr_cols A, arr_cols = arr_rows A, arr_at = \<lambda>i j. arr_at A j i\<rparr>"

record 'a kernel =
  kernel_name :: string
  kernel_shape :: "nat list"
  weights :: "'a array2"

record 'a pyop2 =
  space_dimension :: "function_space \<Rightarrow> nat"
  fiat_matrix :: "function_space \<Rightarrow> function_space \<Rightarrow> 'a array2"
  block_shape :: "ctx \<Rightarrow> nat list list list"
  par_loop :: "'a kernel \<Rightarrow> nat \<times> nat \<Rightarrow> ctx \<Rightarrow> 'a mat"

text \<open>
  \<^verbatim>\<open>SubspaceCorrectionPrec.transfer_kernel\<close> (lines 142-212): the restriction kernel
  \<^verbatim>\<open>Pk_P1_mapper\<close> with the weights \<^verbatim>\<open>matrix\<close>, or for \<^verbatim>\<open>restriction=False\<close> the prolongation
  kernel \<^verbatim>\<open>P1_Pk_mapper\<close> with the weights \<^verbatim>\<open>matrix.T\<close>.  The two assertions (lines 165 and
  185) are the errors.
\<close>

definition transfer_kernel :: "'a pyop2 \<Rightarrow> ctx \<Rightarrow> bool \<Rightarrow> error + 'a kernel" where
  "transfer_kernel op2 self restriction =
     (let Pk = self_V self;
          P1 = self_P1 self
      in if space_dimension op2 Pk < space_dimension op2 P1 then Inl AssertionError
         else
           let matrix = fiat_matrix op2 Pk P1;
               (Vout, Vin, w, name) =
                 (if restriction then (P1, Pk, matrix, ''Pk_P1_mapper'')
                  else (Pk, P1, array_T matrix, ''P1_Pk_mapper''))
           in if shape Vin \<noteq> shape Vout then Inl AssertionError
              else Inr \<lparr>kernel_name = name,
                        kernel_shape = [space_dimension op2 Vout] @ shape Vout
                                       @ [space_dimension op2 Vin] @ shape Vin,
                        weights = w\<rparr>)"

text \<open>
  The cached property \<^verbatim>\<open>SubspaceCorrectionPrec.transfer_op\<close> (lines 214-234).  The state it
  works on is the slot in which \<^verbatim>\<open>utils.cached_property\<close> keeps the value of the property
  on the instance (\<open>None\<close> until the first access has returned) and the list of the kernels
  that \<^verbatim>\<open>op2.par_loop\<close> has run so far.  An access with a filled slot returns the stored
  matrix and runs nothing.  Otherwise the body runs: the assertion on the block shape
  (line 226), the block shape scaled by the block dimensions of the two spaces, and one
  \<^verbatim>\<open>par_loop\<close> with the kernel of \<^verbatim>\<open>self.transfer_kernel()\<close>, that is with \<^verbatim>\<open>restriction=True\<close>;
  the assembled matrix is stored and returned.  An exception leaves the slot empty.
\<close>

record 'a assembly =
  transfer_op_cache :: "'a mat option"
  par_loops :: "'a kernel list"

definition SubspaceCorrectionPrec_transfer_op ::
  "'a pyop2 \<Rightarrow> ctx \<Rightarrow> 'a assembly \<Rightarrow> error + ('a mat \<times> 'a assembly)" where
  "SubspaceCorrectionPrec_transfer_op op2 self st =
     (case transfer_op_cache st of
        Some handle \<Rightarrow> Inr (handle, st)
      | None \<Rightarrow>
          let sh = block_shape op2 self
          in if \<not> (length sh = 1 \<and> length (sh ! 0) = 1 \<and> length (sh ! 0 ! 0) = 2)
             then Inl AssertionError
             else
               let a = sh ! 0 ! 0 ! 0;
                   b = sh ! 0 ! 0 ! 1;
                   nsh = (a * cdim (self_P1 self), b * cdim (self_V self))
               in bind_err (transfer_kernel op2 self True) (\<lambda>k.
                    let handle = par_loop op2 k nsh self
                    in Inr (handle, st\<lparr>transfer_op_cache := Some handle,
                                       par_loops := par_loops st @ [k]\<rparr>)))"

text \<open>
  The attributes of a \<^verbatim>\<open>P1PC\<close>: the operator given to the inner preconditioner
  \<^verbatim>\<open>self.pc\<close>, the transfer matrix and the two work vectors.
\<close>

record 'a p1pc =
  pc_operator :: operator
  transfer :: "'a mat"
  work1 :: "'a list"
  work2 :: "'a list"

text \<open>
  \<^verbatim>\<open>P1PC.setUp\<close> (lines 285-296), given the value of the cached property
  \<^verbatim>\<open>ctx.transfer_op\<close> as the parameter \<open>transfer_op\<close>: the matrix with the coarse dofs as
  rows and the dofs of \<open>V\<close> as columns.  \<^verbatim>\<open>createVecLeft\<close> gives a vector with as many
  entries as the matrix has rows.
\<close>

definition P1PC_setUp :: "(ctx \<Rightarrow> 'a mat) \<Rightarrow> ctx \<Rightarrow> 'a::zero p1pc" where
  "P1PC_setUp transfer_op ctx =
     (let op = P1_op ctx;
          t = transfer_op ctx
      in \<lparr>pc_operator = op, transfer = t,
          work1 = replicate (nrows t) 0, work2 = replicate (nrows t) 0\<rparr>)"

text \<open>
  \<^verbatim>\<open>P1PC.setUp\<close> with the access to \<^verbatim>\<open>ctx.transfer_op\<close> (line 294) run in the state of the
  property: the only place of the module that reads the property.
\<close>

definition P1PC_setUp_cached ::
  "'a pyop2 \<Rightarrow> ctx \<Rightarrow> 'a assembly \<Rightarrow> error + ('a::zero p1pc \<times> 'a assembly)" where
  "P1PC_setUp_cached op2 ctx st =
     bind_err (SubspaceCorrectionPrec_transfer_op op2 ctx st) (\<lambda>(t, st').
       Inr (P1PC_setUp (\<lambda>self. t) ctx, st'))"

text \<open>
  \<^verbatim>\<open>P1PC.apply\<close> (lines 307-313).  The inner preconditioner \<^verbatim>\<open>self.pc.apply\<close> is the
  parameter \<open>pc_apply\<close>: from its operator, the input vector and the initial content of
  the output vector it gives the output vector.  The result is the object with its work
  vectors, and \<open>y\<close>.  The method reads the stored matrix \<^verbatim>\<open>self.transfer\<close> for both
  directions and has no access to the property or to \<^verbatim>\<open>op2.par_loop\<close>.
\<close>

definition P1PC_apply ::
  "(operator \<Rightarrow> 'a list \<Rightarrow> 'a list \<Rightarrow> 'a list) \<Rightarrow> 'a::semiring_0 p1pc
   \<Rightarrow> 'a list \<Rightarrow> 'a list \<Rightarrow> error + ('a p1pc \<times> 'a list)" where
  "P1PC_apply pc_apply self x y =
     (let y0 = replicate (length y) 0;
          w1 = replicate (length (work1 self)) 0;
          w2 = replicate (length (work2 self)) 0
      in bind_err (mult (transfer self) x w1) (\<lambda>w1'.
           let w2' = pc_apply (pc_operator self) w1' w2
           in bind_err (multTranspose (transfer self) w2' y0) (\<lambda>y'.
                Inr (self\<lparr>work1 := w1', work2 := w2'\<rparr>, y'))))"

section \<open>The patch smoother, described directly\<close>

text \<open>
  The local right-hand side of a patch with global dofs \<open>pd\<close> and boundary-fixed local dofs
  \<open>bc\<close>: for each local dof \<open>j\<close> the row of the residual at the global dof \<open>pd ! j\<close>, or
  a zero row when \<open>j\<close> is boundary-fixed.
\<close>

definition local_rhs :: "nat \<Rightarrow> 'a::zero list \<Rightarrow> nat list \<Rightarrow> nat list \<Rightarrow> 'a list" where
  "local_rhs bs x pd bc =
     concat (map (\<lambda>j. if j \<in> set bc then replicate bs 0 else take bs (drop (pd ! j * bs) x))
               [0..<length pd])"

text \<open>
  Scatter-add of a local solution \<open>ly\<close> of a patch with global dofs \<open>pd\<close>: what entry \<open>k\<close> of
  the global vector receives, the sum of the entries of \<open>ly\<close> at component \<open>k mod bs\<close> of
  every local dof that is the global dof \<open>k div bs\<close>.
\<close>

definition scatter_term :: "nat \<Rightarrow> nat list \<Rightarrow> 'a::comm_monoid_add list \<Rightarrow> nat \<Rightarrow> 'a" where
  "scatter_term bs pd ly k =
     (\<Sum>j\<leftarrow>[0..<length pd]. if pd ! j = k div bs then ly ! (j * bs + k mod bs) else 0)"

text \<open>
  The patches that the loops of \<^verbatim>\<open>PatchPC.apply\<close> enumerate, each with its matrix, its global
  dofs and its boundary-fixed local dofs; the correction of one patch to entry \<open>k\<close>
  (gather with the boundary rows zeroed, solve from a zeroed solution vector,
  scatter-add); and the smoother: from zero, the sum of the corrections of the patches.
\<close>

definition patches_of :: "ctx \<Rightarrow> 'a mat list \<Rightarrow> ('a mat \<times> nat list \<times> nat list) list" where
  "patches_of ctx mats =
     map (\<lambda>i. (mats ! i, projr (patch_slice (glob_patches ctx) i),
                projr (patch_slice (bc_patches ctx) i)))
         [0..<length mats]"

definition patch_correction ::
  "('a mat \<Rightarrow> 'a list \<Rightarrow> 'a list \<Rightarrow> 'a list) \<Rightarrow> nat \<Rightarrow> 'a list
   \<Rightarrow> 'a mat \<times> nat list \<times> nat list \<Rightarrow> nat \<Rightarrow> 'a::comm_monoid_add" where
  "patch_correction ksp_solve bs x P k =
     (case P of (m, pd, bc) \<Rightarrow>
        scatter_term bs pd (ksp_solve m (local_rhs bs x pd bc) (replicate (ncols m) 0)) k)"

definition smoother ::
  "('a mat \<Rightarrow> 'a list \<Rightarrow> 'a list \<Rightarrow> 'a list) \<Rightarrow> nat \<Rightarrow> 'a list
   \<Rightarrow> ('a mat \<times> nat list \<times> nat list) list \<Rightarrow> nat \<Rightarrow> 'a::comm_monoid_add list" where
  "smoother ksp_solve bs x ps n =
     map (\<lambda>k. \<Sum>P\<leftarrow>ps. patch_correction ksp_solve bs x P k) [0..<n]"

text \<open>
  Well-formed patch data for a space with \<open>N\<close> nodes: a positive block size; offsets for
  every patch in the arrays of \<^verbatim>\<open>glob_patches\<close>, \<^verbatim>\<open>bc_patches\<close> and \<^verbatim>\<open>cells\<close>; and for every
  patch, offsets that do not decrease and stay inside the value array, global dofs that
  are distinct nodes of the space, and boundary-fixed dofs that are local dofs of the
  patch.
\<close>

definition well_formed :: "ctx \<Rightarrow> nat \<Rightarrow> bool" where
  "well_formed ctx N =
     (let n = length (offset (dof_patches ctx)) - 1;
          g = glob_patches ctx;
          b = bc_patches ctx
      in 0 < dim (self_V ctx)
       \<and> n < length (offset g) \<and> n < length (offset b) \<and> n < length (offset (self_cells ctx))
       \<and> list_all (\<lambda>i.
             offset g ! i \<le> offset g ! (i + 1) \<and> offset g ! (i + 1) \<le> length (csr_value g)
           \<and> distinct (py_slice (csr_value g) (offset g ! i) (offset g ! (i + 1)))
           \<and> list_all (\<lambda>p. p < N) (py_slice (csr_value g) (offset g ! i) (offset g ! (i + 1)))
           \<and> list_all (\<lambda>r. r < offset g ! (i + 1) - offset g ! i)
                 (py_slice (csr_value b) (offset b ! i) (offset b ! (i + 1))))
           [0..<n])"

section \<open>The coarse correction, described directly\<close>

text \<open>
  The product of a matrix with a vector, the transposed matrix, the sparsity pattern (the
  positions of the nonzero entries, row by row) and the pairing of two vectors.
\<close>

definition matvec :: "'a::semiring_0 mat \<Rightarrow> 'a list \<Rightarrow> 'a list" where
  "matvec A x = map (\<lambda>i. \<Sum>j\<leftarrow>[0..<ncols A]. entry A i j * x ! j) [0..<nrows A]"

definition transpose_mat :: "'a mat \<Rightarrow> 'a mat" where
  "transpose_mat A =
     \<lparr>nrows = ncols A, ncols = nrows A, block_size = block_size A, entry = \<lambda>i j. entry A j i\<rparr>"

definition pattern :: "'a::zero mat \<Rightarrow> (nat \<times> nat) list" where
  "pattern A = concat (map (\<lambda>i. concat (map (\<lambda>j. if entry A i j = 0 then [] else [(i, j)])
                                 [0..<ncols A])) [0..<nrows A])"

definition dot :: "'a::semiring_0 list \<Rightarrow> 'a list \<Rightarrow> 'a" where
  "dot u v = (\<Sum>k\<leftarrow>[0..<length u]. u ! k * v ! k)"

section \<open>Example data\<close>

text \<open>
  Concrete stand-ins for Firedrake's constructors and for the demo's spaces, used to run
  the model: the scalar and vector degree-1 spaces, the demo's vector space of degree 2 on
  the pulley mesh, and a tensor-valued space.
\<close>

definition FunctionSpace_ex :: "string \<Rightarrow> string \<Rightarrow> nat \<Rightarrow> function_space" where
  "FunctionSpace_ex mesh fam deg =
     \<lparr>fs_mesh = mesh, fs_family = fam, fs_degree = deg, rank = 0, shape = [],
      cdim = 1, dim = 1\<rparr>"

definition VectorFunctionSpace_ex :: "string \<Rightarrow> string \<Rightarrow> nat \<Rightarrow> nat \<Rightarrow> function_space" where
  "VectorFunctionSpace_ex mesh fam deg d =
     \<lparr>fs_mesh = mesh, fs_family = fam, fs_degree = deg, rank = 1, shape = [d],
      cdim = d, dim = d\<rparr>"

definition TensorFunctionSpace_ex :: "string \<Rightarrow> string \<Rightarrow> nat \<Rightarrow> function_space" where
  "TensorFunctionSpace_ex mesh fam deg =
     \<lparr>fs_mesh = mesh, fs_family = fam, fs_degree = deg, rank = 2, shape = [3, 3],
      cdim = 9, dim = 9\<rparr>"

definition form_on :: "function_space \<Rightarrow> form" where
  "form_on V =
     \<lparr>ufl_domain = fs_mesh V, test_space = V, trial_space = V,
      integrand = ''inner(sigma(u), grad(v))*dx''\<rparr>"

definition no_patches :: csr where
  "no_patches = \<lparr>offset = [0], csr_value = []\<rparr>"

text \<open>
  A small context: a vector space with two components per node on three nodes, and three
  vertex patches.  Patch 0 has the nodes 0 and 1 and fixes its first, patch 1 has the
  nodes 1 and 2 and fixes its second, patch 2 has node 2 alone and fixes it.  The kernel
  fills a diagonal operator and the solver is an exact diagonal solve.
\<close>

definition ctx_ex :: ctx where
  "ctx_ex =
     \<lparr>self_a = form_on (VectorFunctionSpace_ex ''interval'' ''CG'' 2 2),
      self_mesh = ''interval'',
      self_V = VectorFunctionSpace_ex ''interval'' ''CG'' 2 2,
      self_P1 = VectorFunctionSpace_ex ''interval'' ''CG'' 1 2,
      self_bcs = [DirichletBC (VectorFunctionSpace_ex ''interval'' ''CG'' 2 2)
                    (Expr ''(0, 0)'') [1] ''topological''],
      self_cells = \<lparr>offset = [0, 1, 2, 3], csr_value = [0, 1, 1]\<rparr>,
      self_facets = \<lparr>offset = [0, 0, 0, 0], csr_value = []\<rparr>,
      dof_patches = \<lparr>offset = [0, 2, 4, 5], csr_value = [0, 1, 0, 1, 0]\<rparr>,
      glob_patches = \<lparr>offset = [0, 2, 4, 5], csr_value = [0, 1, 1, 2, 2]\<rparr>,
      bc_patches = \<lparr>offset = [0, 1, 2, 3], csr_value = [0, 1, 0]\<rparr>\<rparr>"

definition globals_ex :: "string \<rightharpoonup> function_space" where
  "globals_ex = [''V'' \<mapsto> VectorFunctionSpace_ex ''interval'' ''CG'' 2 2]"

definition matrix_callable_ex ::
  "nat \<Rightarrow> nat \<Rightarrow> nat list \<Rightarrow> real mat \<Rightarrow> nat list \<Rightarrow> nat list \<Rightarrow> nat \<Rightarrow> nat \<Rightarrow> real" where
  "matrix_callable_ex cstart cend cells m rmap cmap = (\<lambda>r c. if r = c then 2 else 0)"

definition ksp_solve_ex :: "real mat \<Rightarrow> real list \<Rightarrow> real list \<Rightarrow> real list" where
  "ksp_solve_ex m b ly = map (\<lambda>k. b ! k / entry m k k) [0..<length ly]"

text \<open>
  A module namespace whose \<^verbatim>\<open>V\<close> is an unrelated space with three components, and the
  state of the vectors at the start of the first loop for a residual on the small context.
\<close>

definition globals_unrelated :: "string \<rightharpoonup> function_space" where
  "globals_unrelated = [''V'' \<mapsto> VectorFunctionSpace_ex ''pulley.msh'' ''CG'' 2 3]"

definition s0_ex :: "real vecs" where
  "s0_ex = \<lparr>vec_x = [1, 2, 3, 4, 5, 6], vec_y = [0, 0, 0, 0, 0, 0], tmp_ys = [],
            ksp_operators = None\<rparr>"

text \<open>
  A transfer matrix from the three fine nodes to two coarse nodes, acting on each of the two
  components alike, and an inner preconditioner that halves its input.
\<close>

definition transfer_op_ex :: "ctx \<Rightarrow> real mat" where
  "transfer_op_ex self =
     \<lparr>nrows = 4, ncols = 6, block_size = 2,
      entry = \<lambda>i j. if i mod 2 = j mod 2 then [[1, 1/2, 0], [0, 1/2, 1]] ! (i div 2) ! (j div 2)
                     else 0\<rparr>"

definition pc_apply_ex :: "operator \<Rightarrow> real list \<Rightarrow> real list \<Rightarrow> real list" where
  "pc_apply_ex op w w0 = map (\<lambda>k. w ! k / 2) [0..<length w0]"

text \<open>
  The small context with its patches enumerated in another order (patch 2 first), and the
  patch matrices the example kernel produces: a diagonal of 2, with the listed rows and
  columns replaced by those of the identity.
\<close>

definition ctx_perm_ex :: ctx where
  "ctx_perm_ex = ctx_ex
     \<lparr>self_cells := \<lparr>offset = [0, 1, 2, 3], csr_value = [1, 0, 1]\<rparr>,
      dof_patches := \<lparr>offset = [0, 1, 3, 5], csr_value = [0, 0, 1, 0, 1]\<rparr>,
      glob_patches := \<lparr>offset = [0, 1, 3, 5], csr_value = [2, 0, 1, 1, 2]\<rparr>,
      bc_patches := \<lparr>offset = [0, 1, 2, 3], csr_value = [0, 0, 1]\<rparr>\<rparr>"

definition patch_mat_ex :: "nat \<Rightarrow> nat list \<Rightarrow> real mat" where
  "patch_mat_ex n rows =
     \<lparr>nrows = n, ncols = n, block_size = 2,
      entry = \<lambda>i j. if i \<in> set rows \<or> j \<in> set rows then (if i = j then 1 else 0)
                     else (if i = j then 2 else 0)\<rparr>"

text \<open>
  FIAT and PyOP2 for the small context: elements of degree \<open>d\<close> on an interval have
  \<open>d + 1\<close> basis functions, the two coarse basis functions are the vertex functions plus
  half the midpoint function, and the loop assembles the transfer matrix above.  With them
  the restriction kernel, and the state of a context whose property has not been read.
\<close>

definition pyop2_ex :: "real pyop2" where
  "pyop2_ex =
     \<lparr>space_dimension = (\<lambda>V. fs_degree V + 1),
      fiat_matrix = (\<lambda>Pk P1. \<lparr>arr_rows = 2, arr_cols = 3,
                               arr_at = \<lambda>i j. [[1, 0, 1/2], [0, 1, 1/2]] ! i ! j\<rparr>),
      block_shape = (\<lambda>self. [[[2, 3]]]),
      par_loop = (\<lambda>k nsh self. transfer_op_ex self)\<rparr>"

definition kernel_ex :: "real kernel" where
  "kernel_ex =
     \<lparr>kernel_name = ''Pk_P1_mapper'', kernel_shape = [2, 2, 3, 2],
      weights = \<lparr>arr_rows = 2, arr_cols = 3,
                 arr_at = \<lambda>i j. [[1, 0, 1/2], [0, 1, 1/2]] ! i ! j\<rparr>\<rparr>"

definition assembly_ex :: "real assembly" where
  "assembly_ex = \<lparr>transfer_op_cache = None, par_loops = []\<rparr>"

text \<open>
  A scalar space on a star of three cells around node 0, with one patch per cell: the
  patches have the nodes \<open>[0, 1]\<close>, \<open>[0, 2]\<close> and \<open>[0, 3]\<close> and fix none of them.  The second
  context enumerates the same patches with the last one first.  The kernel fills every
  patch matrix with the matrix that exchanges the two local dofs, and the solver solves
  systems whose matrix is a permutation matrix exactly: it copies entry \<open>i\<close> of the
  right-hand side to the entry \<open>j\<close> of the solution for which the matrix has a 1 at
  \<open>(i, j)\<close>.  The residual holds floating-point numbers.
\<close>

definition ctx_star :: ctx where
  "ctx_star =
     \<lparr>self_a = form_on (FunctionSpace_ex ''star'' ''CG'' 1),
      self_mesh = ''star'',
      self_V = FunctionSpace_ex ''star'' ''CG'' 1,
      self_P1 = FunctionSpace_ex ''star'' ''CG'' 1,
      self_bcs = [],
      self_cells = \<lparr>offset = [0, 1, 2, 3], csr_value = [0, 1, 2]\<rparr>,
      self_facets = \<lparr>offset = [0, 0, 0, 0], csr_value = []\<rparr>,
      dof_patches = \<lparr>offset = [0, 2, 4, 6], csr_value = [0, 1, 0, 1, 0, 1]\<rparr>,
      glob_patches = \<lparr>offset = [0, 2, 4, 6], csr_value = [0, 1, 0, 2, 0, 3]\<rparr>,
      bc_patches = \<lparr>offset = [0, 0, 0, 0], csr_value = []\<rparr>\<rparr>"

definition ctx_star_perm :: ctx where
  "ctx_star_perm = ctx_star
     \<lparr>self_cells := \<lparr>offset = [0, 1, 2, 3], csr_value = [2, 0, 1]\<rparr>,
      glob_patches := \<lparr>offset = [0, 2, 4, 6], csr_value = [0, 3, 0, 1, 0, 2]\<rparr>\<rparr>"

definition globals_star :: "string \<rightharpoonup> function_space" where
  "globals_star = [''V'' \<mapsto> FunctionSpace_ex ''star'' ''CG'' 1]"

definition matrix_callable_swap ::
  "nat \<Rightarrow> nat \<Rightarrow> nat list \<Rightarrow> float64 mat \<Rightarrow> nat list \<Rightarrow> nat list \<Rightarrow> nat \<Rightarrow> nat \<Rightarrow> float64" where
  "matrix_callable_swap cstart cend cells m rmap cmap = (\<lambda>r c. if r + c = 1 then 1 else 0)"

definition swap_mat :: "float64 mat" where
  "swap_mat = \<lparr>nrows = 2, ncols = 2, block_size = 1, entry = \<lambda>r c. if r + c = 1 then 1 else 0\<rparr>"

definition ksp_solve_perm :: "float64 mat \<Rightarrow> float64 list \<Rightarrow> float64 list \<Rightarrow> float64 list" where
  "ksp_solve_perm m b ly =
     map (\<lambda>j. case find (\<lambda>i. entry m i j = 1) [0..<nrows m] of
                 Some i \<Rightarrow> b ! i
               | None \<Rightarrow> ly ! j)
         [0..<length ly]"

definition x_star :: "float64 list" where
  "x_star = [Float64 0, Float64 (2 ^ 60), Float64 (- (2 ^ 60)), Float64 1]"

section \<open>Reading the results of the error monad and of the loops\<close>

lemma bind_err_Inr_iff:
  "bind_err m f = Inr r \<longleftrightarrow> (\<exists>v. m = Inr v \<and> f v = Inr r)"
  by (cases m) (simp_all add: bind_err_def)

lemma bind_err_Inl [simp]: "bind_err (Inl e) f = Inl e"
  by (simp add: bind_err_def)

lemma bind_err_Inr [simp]: "bind_err (Inr v) f = f v"
  by (simp add: bind_err_def)

lemma map_err_Inr_iff:
  "map_err f xs = Inr ys \<longleftrightarrow> length ys = length xs \<and> (\<forall>k<length xs. f (xs ! k) = Inr (ys ! k))"
proof (induction xs arbitrary: ys)
  case Nil
  then show ?case by auto
next
  case (Cons x xs)
  show ?case
  proof (cases ys)
    case Nil
    then show ?thesis by (auto simp: bind_err_Inr_iff)
  next
    case (Cons y ys')
    then show ?thesis
      using Cons.IH [of ys']
      by (auto simp: bind_err_Inr_iff nth_Cons split: nat.splits)
  qed
qed

lemma index_Inr_iff: "index xs i = Inr v \<longleftrightarrow> i < length xs \<and> v = xs ! i"
  by (auto simp: index_def)

lemma patch_slice_Inr_iff:
  "patch_slice c i = Inr vs \<longleftrightarrow>
     i + 1 < length (offset c) \<and> vs = py_slice (csr_value c) (offset c ! i) (offset c ! (i + 1))"
  by (auto simp: patch_slice_def bind_err_Inr_iff index_Inr_iff)

lemma dstack_flatten_Inr_iff:
  "dstack_flatten dm rows = Inr rs \<longleftrightarrow>
     0 < dm \<and> rs = concat (map (\<lambda>r. map (\<lambda>c. dm * r + c) [0..<dm]) rows)"
  by (auto simp: dstack_flatten_def)

lemma set_dstack:
  "set (concat (map (\<lambda>r. map (\<lambda>c. dm * r + c) [0..<dm]) rows)) = {dm * r + c | r c. r \<in> set rows \<and> c < dm}"
proof -
  have "set (concat (map (\<lambda>r. map (\<lambda>c. dm * r + c) [0..<dm]) rows))
      = (\<Union>r\<in>set rows. (\<lambda>c. dm * r + c) ` {0..<dm})"
    by (simp add: image_image)
  also have "\<dots> = {dm * r + c | r c. r \<in> set rows \<and> c < dm}"
    by (auto simp: image_def Bex_def)
  finally show ?thesis .
qed

lemma zeroRowsColumns_Inr_iff:
  "zeroRowsColumns rows A = Inr B \<longleftrightarrow>
     (\<forall>r\<in>set rows. r < nrows A) \<and>
     B = A\<lparr>entry := \<lambda>i j. if i \<in> set rows \<or> j \<in> set rows
                                 then (if i = j then 1 else 0) else entry A i j\<rparr>"
proof -
  have "(\<exists>r\<in>set rows. nrows A \<le> r) \<longleftrightarrow> \<not> (\<forall>r\<in>set rows. r < nrows A)"
    by (auto simp: not_less)
  then show ?thesis
    unfolding zeroRowsColumns_def by auto
qed

lemma patch_matrix_Inr:
  assumes "patch_matrix mc dm self i = Inr M"
  shows "i + 1 < length (offset (glob_patches self))
    \<and> offset (glob_patches self) ! i \<le> offset (glob_patches self) ! (i + 1)
    \<and> nrows M = (offset (glob_patches self) ! (i + 1) - offset (glob_patches self) ! i) * dm
    \<and> ncols M = nrows M \<and> block_size M = dm
    \<and> (\<exists>rows. patch_slice (bc_patches self) i = Inr rows \<and> (rows = [] \<or> 0 < dm) \<and> 
          (\<forall>r\<in>set rows. \<forall>c<dm. dm * r + c < nrows M \<and>
             (\<forall>j. entry M (dm * r + c) j = (if j = dm * r + c then 1 else 0)
                 \<and> entry M j (dm * r + c) = (if j = dm * r + c then 1 else 0))))"
proof -
  let ?g = "offset (glob_patches self)"
  let ?size = "(?g ! (i + 1) - ?g ! i) * dm"
  let ?mat0 = "\<lparr>nrows = ?size, ncols = ?size, block_size = dm, entry = \<lambda>r c. 0\<rparr> :: 'a mat"
  define M1 where "M1 = ?mat0\<lparr>entry := mc 0
       (offset (self_cells self) ! (i + 1) - offset (self_cells self) ! i)
       (drop (offset (self_cells self) ! i) (csr_value (self_cells self))) ?mat0
       (drop (offset (dof_patches self) ! i) (csr_value (dof_patches self)))
       (drop (offset (dof_patches self) ! i) (csr_value (dof_patches self)))\<rparr>"
  have M1: "nrows M1 = ?size" "ncols M1 = nrows M1" "block_size M1 = dm"
    by (simp_all add: M1_def)
  from assms obtain rows rows' where
    g: "i + 1 < length ?g" "?g ! i \<le> ?g ! (i + 1)" and
    rows: "patch_slice (bc_patches self) i = Inr rows" and
    rows': "dstack_flatten dm rows = Inr rows'" and
    z: "zeroRowsColumns rows' M1 = Inr M"
    unfolding patch_matrix_def Let_def M1_def
    by (auto simp: bind_err_Inr_iff index_Inr_iff split: if_splits)
  from rows' have dm: "0 < dm" and
    mem: "set rows' = {dm * r + c | r c. r \<in> set rows \<and> c < dm}"
    by (auto simp: dstack_flatten_Inr_iff set_dstack simp del: set_concat)
  from z have inr: "\<forall>r\<in>set rows'. r < nrows M1" and
    M: "M = M1\<lparr>entry := \<lambda>i j. if i \<in> set rows' \<or> j \<in> set rows'
                                 then (if i = j then 1 else 0) else entry M1 i j\<rparr>"
    by (simp_all add: zeroRowsColumns_Inr_iff)
  have "dm * r + c < nrows M \<and>
             (\<forall>j. entry M (dm * r + c) j = (if j = dm * r + c then 1 else 0)
                 \<and> entry M j (dm * r + c) = (if j = dm * r + c then 1 else 0))"
    if "r \<in> set rows" "c < dm" for r c
  proof -
    from that have "dm * r + c \<in> set rows'"
      unfolding mem by blast
    then show ?thesis
      using inr by (auto simp: M)
  qed
  with g M1 rows dm show ?thesis
    by (auto simp: M)
qed


lemma concat_uniform_nth:
  "\<forall>row\<in>set R. length row = bs \<Longrightarrow> r < length R \<Longrightarrow> c < bs \<Longrightarrow>
     concat R ! (r * bs + c) = R ! r ! c"
proof (induction R arbitrary: r)
  case Nil
  then show ?case by simp
next
  case (Cons a R)
  show ?case
  proof (cases r)
    case 0
    with Cons.prems show ?thesis by (simp add: nth_append)
  next
    case (Suc r')
    with Cons.prems have "concat R ! (r' * bs + c) = R ! r' ! c"
      by (intro Cons.IH) auto
    moreover from Cons.prems have "length a = bs" by simp
    ultimately show ?thesis
      using Suc by (simp add: nth_append)
  qed
qed

lemma length_concat_uniform:
  "\<forall>row\<in>set R. length row = bs \<Longrightarrow> length (concat R) = length R * bs"
  by (induction R) auto

lemma concat_chunks:
  "concat (map (\<lambda>r. take bs (drop (r * bs) v)) [0..<n]) = take (n * bs) v"
proof (induction n)
  case 0
  then show ?case by simp
next
  case (Suc n)
  have "take (n * bs + bs) v = take (n * bs) v @ take bs (drop (n * bs) v)"
    by (rule take_add)
  with Suc show ?case by (simp add: add.commute)
qed

lemma chunk_length:
  assumes "r < length v div bs"
  shows "length (take bs (drop (r * bs) v)) = bs"
proof -
  from assms have "Suc r * bs \<le> (length v div bs) * bs"
    by (intro mult_le_mono1) simp
  also have "\<dots> \<le> length v"
    by simp
  finally show ?thesis by simp
qed

lemma reshape_Inr:
  assumes "reshape bs v = Inr R"
  shows "0 < bs \<and> length v mod bs = 0 \<and> length R = length v div bs
    \<and> (\<forall>row\<in>set R. length row = bs) \<and> concat R = v
    \<and> (\<forall>p<length R. R ! p = take bs (drop (p * bs) v))"
proof -
  from assms have bs: "0 < bs" and m: "length v mod bs = 0"
    and R: "R = map (\<lambda>r. take bs (drop (r * bs) v)) [0..<length v div bs]"
    by (auto simp: reshape_def split: if_splits)
  from m have "(length v div bs) * bs = length v"
    by auto
  then have c: "concat R = v"
    by (simp add: R concat_chunks)
  have l: "length R = length v div bs"
    by (simp add: R)
  have n: "\<forall>p<length R. R ! p = take bs (drop (p * bs) v)"
    by (simp add: R)
  have "length row = bs" if "row \<in> set R" for row
  proof -
    from that obtain r where "r < length v div bs" "row = take bs (drop (r * bs) v)"
      by (auto simp: R)
    then show ?thesis
      using chunk_length [of r v bs] by blast
  qed
  then have rows: "\<forall>row\<in>set R. length row = bs"
    by blast
  from bs m l rows c n show ?thesis
    by blast
qed

lemma reshape_replicate:
  "reshape bs (replicate n z) = Inr R \<Longrightarrow> length R = n div bs \<and> n mod bs = 0"
  by (drule reshape_Inr) simp

lemma take_rows_Inr_iff:
  "take_rows A idx = Inr G \<longleftrightarrow> (\<forall>p\<in>set idx. p < length A) \<and> G = map (\<lambda>p. A ! p) idx"
proof -
  have "(\<exists>p\<in>set idx. length A \<le> p) \<longleftrightarrow> \<not> (\<forall>p\<in>set idx. p < length A)"
    by (auto simp: not_less)
  then show ?thesis
    unfolding take_rows_def by auto
qed

lemma set_rows_zero_Inr_iff:
  "set_rows_zero bs A idx = Inr B \<longleftrightarrow> (\<forall>p\<in>set idx. p < length A)
     \<and> B = map (\<lambda>p. if p \<in> set idx then replicate bs 0 else A ! p) [0..<length A]"
proof -
  have "(\<exists>p\<in>set idx. length A \<le> p) \<longleftrightarrow> \<not> (\<forall>p\<in>set idx. p < length A)"
    by (auto simp: not_less)
  then show ?thesis
    unfolding set_rows_zero_def by auto
qed

lemma broadcast_rows_Inr:
  assumes "broadcast_rows n R = Inr R'" and "\<forall>row\<in>set R. length row = bs"
  shows "length R' = n \<and> (\<forall>row\<in>set R'. length row = bs) \<and> (length R = n \<longrightarrow> R' = R)"
  using assms by (auto simp: broadcast_rows_def split: if_splits)

lemma build_rhs_Inr:
  assumes "build_rhs bs x m pd bc = Inr b"
  shows "0 < bs \<and> length b = nrows m \<and> length x mod bs = 0 \<and> nrows m mod bs = 0
     \<and> (\<forall>p\<in>set pd. p < length x div bs)
     \<and> (\<forall>r\<in>set bc. r < nrows m div bs \<and> (\<forall>c<bs. b ! (r * bs + c) = 0))
     \<and> (length pd * bs = nrows m \<longrightarrow> b = local_rhs bs x pd bc)"
proof -
  from assms obtain X G B B1 B2 where
    X: "reshape bs x = Inr X" and G: "take_rows X pd = Inr G" and
    B: "reshape bs (replicate (nrows m) (0::'a)) = Inr B" and
    B1: "broadcast_rows (length B) G = Inr B1" and
    B2: "set_rows_zero bs B1 bc = Inr B2" and b: "b = concat B2"
    unfolding build_rhs_def Let_def by (auto simp: bind_err_Inr_iff)
  from reshape_Inr [OF X] have bs: "0 < bs" and mx: "length x mod bs = 0"
    and lX: "length X = length x div bs" and Xrows: "\<forall>row\<in>set X. length row = bs"
    and Xnth: "\<forall>p<length X. X ! p = take bs (drop (p * bs) x)"
    by blast+
  from G have inr: "\<forall>p\<in>set pd. p < length X" and Gdef: "G = map (\<lambda>p. X ! p) pd"
    by (simp_all add: take_rows_Inr_iff)
  have Xrow: "length (X ! p) = bs" if "p < length X" for p
    using Xrows that nth_mem by blast
  have Grows: "\<forall>row\<in>set G. length row = bs"
    using inr Xrow by (auto simp: Gdef)
  from reshape_replicate [OF B] have lB: "length B = nrows m div bs" and md: "nrows m mod bs = 0"
    by blast+
  from broadcast_rows_Inr [OF B1 Grows] have lB1: "length B1 = length B"
    and B1rows: "\<forall>row\<in>set B1. length row = bs" and B1G: "length G = length B \<longrightarrow> B1 = G"
    by blast+
  have B1row: "length (B1 ! p) = bs" if "p < length B1" for p
    using B1rows that nth_mem by blast
  from B2 have bcr: "\<forall>p\<in>set bc. p < length B1"
    and B2def: "B2 = map (\<lambda>p. if p \<in> set bc then replicate bs 0 else B1 ! p) [0..<length B1]"
    by (simp_all add: set_rows_zero_Inr_iff)
  have B2rows: "\<forall>row\<in>set B2. length row = bs"
    using B1row by (auto simp: B2def)
  have lB2: "length B2 = nrows m div bs"
    using lB1 lB by (simp add: B2def)
  have "length b = (nrows m div bs) * bs"
    using length_concat_uniform [OF B2rows] lB2 by (simp add: b)
  with md have lb: "length b = nrows m"
    by (simp add: mod_eq_0_iff_dvd)
  have z: "r < nrows m div bs \<and> (\<forall>c<bs. b ! (r * bs + c) = 0)" if r: "r \<in> set bc" for r
  proof -
    from r bcr have r2: "r < length B2" by (simp add: B2def)
    have "b ! (r * bs + c) = 0" if c: "c < bs" for c
    proof -
      have "b ! (r * bs + c) = B2 ! r ! c"
        unfolding b using B2rows r2 c by (rule concat_uniform_nth)
      also have "\<dots> = 0"
        using r r2 c by (simp add: B2def)
      finally show ?thesis .
    qed
    with r2 lB2 show ?thesis by simp
  qed
  have eq: "b = local_rhs bs x pd bc" if "length pd * bs = nrows m"
  proof -
    from that [symmetric] bs have "nrows m div bs = length pd"
      by simp
    with lB have "length G = length B"
      by (simp add: Gdef)
    with B1G have "B1 = G" by simp
    moreover have "G ! j = take bs (drop (pd ! j * bs) x)" if "j < length pd" for j
      using that inr Xnth by (simp add: Gdef)
    ultimately have "B2 = map (\<lambda>j. if j \<in> set bc then replicate bs 0 else take bs (drop (pd ! j * bs) x))
               [0..<length pd]"
      by (simp add: B2def Gdef)
    then show ?thesis
      by (simp add: b local_rhs_def)
  qed
  have inr': "\<forall>p\<in>set pd. p < length x div bs"
    using inr lX by simp
  from bs lb mx md inr' z eq show ?thesis
    by blast
qed


lemma solve_patch_Inr:
  assumes "solve_patch ksp ctx bs (i, m) s = Inr s'"
  shows "\<exists>pd bc b. patch_slice (glob_patches ctx) i = Inr pd
     \<and> patch_slice (bc_patches ctx) i = Inr bc
     \<and> build_rhs bs (vec_x s) m pd bc = Inr b
     \<and> s' = s\<lparr>tmp_ys := tmp_ys s @ [ksp m b (replicate (ncols m) 0)],
               ksp_operators := Some m\<rparr>"
  using assms unfolding solve_patch_def Let_def
  by (auto simp: bind_err_Inr_iff)

lemma block_index_less:
  assumes "r < n div bs" and "c < bs"
  shows "bs * r + c < (n::nat)"
proof -
  from assms have "bs * r + c < bs * Suc r"
    by simp
  also from assms have "bs * Suc r \<le> bs * (n div bs)"
    by (intro mult_le_mono2) simp
  also have "\<dots> \<le> n"
    by simp
  finally show ?thesis .
qed

text \<open>The definitions unfolded to run the model on the example data.\<close>

lemmas ex_defs = ctx_ex_def globals_ex_def VectorFunctionSpace_ex_def matrix_callable_ex_def
  ksp_solve_ex_def form_on_def

lemmas run_defs = matrices_def patch_matrix_def index_def patch_slice_def py_slice_def
  dstack_flatten_def zeroRowsColumns_def Let_def upt_rec

lemma mult_Inr_iff:
  "mult A x y = Inr r \<longleftrightarrow> length x = ncols A \<and> length y = nrows A \<and> r = matvec A x"
  by (auto simp: mult_def matvec_def)

lemma multTranspose_Inr_iff:
  "multTranspose A x y = Inr r \<longleftrightarrow>
     length x = nrows A \<and> length y = ncols A \<and> r = matvec (transpose_mat A) x"
  by (auto simp: multTranspose_def matvec_def transpose_mat_def)

lemma multTranspose_eq_mult_transpose:
  "multTranspose A x y = mult (transpose_mat A) x y"
  by (simp add: multTranspose_def mult_def transpose_mat_def)

lemma transpose_mat_twice: "transpose_mat (transpose_mat A) = A"
  by (simp add: transpose_mat_def)

lemma set_pattern:
  "set (pattern A) = {(i, j). i < nrows A \<and> j < ncols A \<and> entry A i j \<noteq> 0}"
  by (auto simp: pattern_def split: if_splits)

lemma set_pattern_transpose:
  "set (pattern (transpose_mat A)) = (\<lambda>(i, j). (j, i)) ` set (pattern A)"
  by (auto simp: set_pattern transpose_mat_def image_iff)

lemma length_matvec [simp]: "length (matvec A x) = nrows A"
  by (simp add: matvec_def)

lemma dot_matvec_transpose:
  fixes A :: "'a::comm_semiring_0 mat"
  assumes "length x = ncols A" and "length w = nrows A"
  shows "dot (matvec A x) w = dot x (matvec (transpose_mat A) w)"
proof -
  have "dot (matvec A x) w = (\<Sum>i = 0..<nrows A. (\<Sum>j = 0..<ncols A. entry A i j * x ! j) * w ! i)"
    by (simp add: dot_def matvec_def interv_sum_list_conv_sum_set_nat)
  also have "\<dots> = (\<Sum>i = 0..<nrows A. \<Sum>j = 0..<ncols A. x ! j * (entry A i j * w ! i))"
    by (simp add: sum_distrib_left sum_distrib_right mult_ac)
  also have "\<dots> = (\<Sum>j = 0..<ncols A. \<Sum>i = 0..<nrows A. x ! j * (entry A i j * w ! i))"
    by (rule sum.swap)
  also have "\<dots> = (\<Sum>j = 0..<ncols A. x ! j * (\<Sum>i = 0..<nrows A. entry A i j * w ! i))"
    by (simp add: sum_distrib_left)
  also have "\<dots> = dot x (matvec (transpose_mat A) w)"
    using assms by (simp add: dot_def matvec_def transpose_mat_def interv_sum_list_conv_sum_set_nat)
  finally show ?thesis .
qed


lemma P1PC_apply_Inr_iff:
  "P1PC_apply pc (P1PC_setUp transfer_op ctx) x y = Inr r \<longleftrightarrow>
     length x = ncols (transfer_op ctx) \<and> length y = ncols (transfer_op ctx)
     \<and> length (pc (P1_op ctx) (matvec (transfer_op ctx) x) (replicate (nrows (transfer_op ctx)) 0))
         = nrows (transfer_op ctx)
     \<and> r = ((P1PC_setUp transfer_op ctx)
              \<lparr>work1 := matvec (transfer_op ctx) x,
               work2 := pc (P1_op ctx) (matvec (transfer_op ctx) x) (replicate (nrows (transfer_op ctx)) 0)\<rparr>,
            matvec (transpose_mat (transfer_op ctx))
              (pc (P1_op ctx) (matvec (transfer_op ctx) x) (replicate (nrows (transfer_op ctx)) 0)))"
  unfolding P1PC_apply_def P1PC_setUp_def Let_def
  by (auto simp: bind_err_Inr_iff mult_Inr_iff multTranspose_Inr_iff)

text \<open>Reading the results of the transfer kernel, of the cached property and of the steps of
  \<^verbatim>\<open>P1PC.apply\<close>.\<close>

lemma transfer_kernel_Inr:
  assumes "transfer_kernel op2 self True = Inr k"
  shows "kernel_name k = ''Pk_P1_mapper''"
    and "weights k = fiat_matrix op2 (self_V self) (self_P1 self)"
  using assms by (auto simp: transfer_kernel_def Let_def split: if_splits)

lemma transfer_op_cached:
  assumes "transfer_op_cache st = Some T"
  shows "SubspaceCorrectionPrec_transfer_op op2 self st = Inr (T, st)"
  using assms by (simp add: SubspaceCorrectionPrec_transfer_op_def)

lemma transfer_op_fresh:
  assumes "transfer_op_cache st = None"
      and "SubspaceCorrectionPrec_transfer_op op2 self st = Inr (T, st')"
  shows "\<exists>k. transfer_kernel op2 self True = Inr k
           \<and> st' = st\<lparr>transfer_op_cache := Some T, par_loops := par_loops st @ [k]\<rparr>"
  using assms
  by (auto simp: SubspaceCorrectionPrec_transfer_op_def Let_def bind_err_Inr_iff split: if_splits)

lemma P1PC_setUp_cached_returns:
  assumes "transfer_op_cache st = None"
  shows "(\<exists>r. P1PC_setUp_cached op2 ctx st = Inr r) \<longleftrightarrow>
           length (block_shape op2 ctx) = 1 \<and> length (block_shape op2 ctx ! 0) = 1
         \<and> length (block_shape op2 ctx ! 0 ! 0) = 2
         \<and> space_dimension op2 (self_P1 ctx) \<le> space_dimension op2 (self_V ctx)
         \<and> shape (self_V ctx) = shape (self_P1 ctx)"
  using assms
  by (auto simp: P1PC_setUp_cached_def SubspaceCorrectionPrec_transfer_op_def transfer_kernel_def
        Let_def bind_err_Inr_iff split: if_splits)

lemma P1PC_setUp_cached_Inr:
  assumes "P1PC_setUp_cached op2 ctx st = Inr (s, st')"
  shows "\<exists>T. SubspaceCorrectionPrec_transfer_op op2 ctx st = Inr (T, st')
           \<and> s = P1PC_setUp (\<lambda>self. T) ctx \<and> transfer s = T"
  using assms
  by (auto simp: P1PC_setUp_cached_def bind_err_Inr_iff P1PC_setUp_def Let_def)

lemma P1PC_apply_steps:
  assumes "P1PC_apply pc s x y = Inr (s', y')"
  shows "mult (transfer s) x (replicate (length (work1 s)) 0) = Inr (work1 s')"
    and "work2 s' = pc (pc_operator s) (work1 s') (replicate (length (work2 s)) 0)"
    and "multTranspose (transfer s) (work2 s') (replicate (length y) 0) = Inr y'"
    and "transfer s' = transfer s"
  using assms unfolding P1PC_apply_def Let_def
  by (auto simp: bind_err_Inr_iff)

section \<open>The loops of PatchPC.apply\<close>

lemma assign_rows_Nil [simp]: "assign_rows A [] S = A"
  by (simp add: assign_rows_def)

lemma assign_rows_Cons [simp]:
  "assign_rows A (q # idx) (r # S) = assign_rows (A[q := r]) idx S"
  by (simp add: assign_rows_def)

lemma length_fold_update: "length (fold (\<lambda>(p, r) A'. A'[p := r]) ps A) = length A"
  by (induction ps arbitrary: A) auto

lemma length_assign_rows [simp]: "length (assign_rows A idx S) = length A"
  by (simp add: assign_rows_def length_fold_update)

lemma assign_rows_other:
  "p \<notin> set idx \<Longrightarrow> assign_rows A idx S ! p = A ! p"
proof (induction idx arbitrary: A S)
  case Nil
  then show ?case by simp
next
  case (Cons q idx)
  show ?case
  proof (cases S)
    case Nil
    then show ?thesis by (simp add: assign_rows_def)
  next
    case (Cons r S')
    with Cons.prems Cons.IH [of "A[q := r]" S'] show ?thesis
      by simp
  qed
qed

lemma assign_rows_at:
  "distinct idx \<Longrightarrow> length S = length idx \<Longrightarrow> j < length idx \<Longrightarrow> idx ! j < length A \<Longrightarrow>
     assign_rows A idx S ! (idx ! j) = S ! j"
proof (induction idx arbitrary: A S j)
  case Nil
  then show ?case by simp
next
  case (Cons q idx)
  from Cons.prems obtain r S' where S: "S = r # S'"
    by (cases S) auto
  show ?case
  proof (cases j)
    case 0
    with Cons.prems S show ?thesis
      by (simp add: assign_rows_other)
  next
    case (Suc j')
    with Cons.prems S Cons.IH [of S' j' "A[q := r]"] show ?thesis
      by simp
  qed
qed

lemma sum_list_none:
  fixes f :: "nat \<Rightarrow> 'a::comm_monoid_add"
  assumes "p \<notin> set pd"
  shows "(\<Sum>j\<leftarrow>[0..<length pd]. if pd ! j = p then f j else 0) = 0"
proof -
  have "(\<Sum>j\<leftarrow>[0..<length pd]. if pd ! j = p then f j else 0)
      = (\<Sum>j\<in>{0..<length pd}. if pd ! j = p then f j else 0)"
    by (simp add: interv_sum_list_conv_sum_set_nat)
  also have "\<dots> = (\<Sum>j\<in>{0..<length pd}. 0)"
  proof (rule sum.cong)
    fix j assume "j \<in> {0..<length pd}"
    then have "pd ! j \<in> set pd" by simp
    with assms show "(if pd ! j = p then f j else 0) = 0" by auto
  qed simp
  finally show ?thesis by simp
qed

lemma sum_list_single:
  fixes f :: "nat \<Rightarrow> 'a::comm_monoid_add"
  assumes "distinct pd" and "j < length pd"
  shows "(\<Sum>j'\<leftarrow>[0..<length pd]. if pd ! j' = pd ! j then f j' else 0) = f j"
proof -
  have "(\<Sum>j'\<leftarrow>[0..<length pd]. if pd ! j' = pd ! j then f j' else 0)
      = (\<Sum>j'\<in>{0..<length pd}. if pd ! j' = pd ! j then f j' else 0)"
    by (simp add: interv_sum_list_conv_sum_set_nat)
  also have "\<dots> = (\<Sum>j'\<in>{0..<length pd}. if j = j' then f j' else 0)"
  proof (rule sum.cong)
    fix j' assume "j' \<in> {0..<length pd}"
    then have "j' < length pd" by simp
    from nth_eq_iff_index_eq [OF assms(1) this assms(2)]
    show "(if pd ! j' = pd ! j then f j' else 0) = (if j = j' then f j' else 0)"
      by auto
  qed simp
  also have "\<dots> = f j"
    using assms(2) by (simp add: sum.delta)
  finally show ?thesis .
qed

lemma scatter_term_other:
  "k div bs \<notin> set pd \<Longrightarrow> scatter_term bs pd ly k = 0"
  unfolding scatter_term_def by (rule sum_list_none)

lemma scatter_term_at:
  assumes "distinct pd" and "j < length pd" and "pd ! j = k div bs"
  shows "scatter_term bs pd ly k = ly ! (j * bs + k mod bs)"
  unfolding scatter_term_def assms(3) [symmetric]
  using assms(1,2) by (rule sum_list_single)

lemma nth_concat_rows:
  assumes "\<forall>row\<in>set R. length row = bs" and "0 < bs" and "k < length R * bs"
  shows "concat R ! k = R ! (k div bs) ! (k mod bs)"
proof -
  from assms(3) have "k div bs < length R"
    by (simp add: less_mult_imp_div_less)
  moreover from assms(2) have "k mod bs < bs" by simp
  ultimately have "concat R ! (k div bs * bs + k mod bs) = R ! (k div bs) ! (k mod bs)"
    using assms(1) by (intro concat_uniform_nth)
  then show ?thesis by simp
qed

lemma assign_rows_rows:
  "\<forall>row\<in>set A. P row \<Longrightarrow> \<forall>row\<in>set S. P row \<Longrightarrow> \<forall>row\<in>set (assign_rows A idx S). P row"
proof (induction idx arbitrary: A S)
  case Nil
  then show ?case by simp
next
  case (Cons q idx)
  show ?case
  proof (cases S)
    case Nil
    then have "assign_rows A (q # idx) S = A"
      by (simp add: assign_rows_def)
    with Cons.prems(1) show ?thesis by simp
  next
    case S: (Cons r S')
    have sub: "set (A[q := r]) \<subseteq> insert r (set A)"
      by (rule set_update_subset_insert)
    from Cons.prems(2) have r: "P r" and S': "\<forall>row\<in>set S'. P row"
      by (simp_all add: S)
    from sub r Cons.prems(1) have "\<forall>row\<in>set (A[q := r]). P row"
      by blast
    from Cons.IH [OF this S'] show ?thesis
      by (simp add: S)
  qed
qed

lemma add_patch_Inr:
  fixes s :: "'a::comm_monoid_add vecs"
  assumes "add_patch ctx bs (i, ly) s = Inr s'"
  shows "\<exists>pd. patch_slice (glob_patches ctx) i = Inr pd
     \<and> 0 < bs \<and> length (vec_y s) mod bs = 0 \<and> length ly mod bs = 0
     \<and> (\<forall>p\<in>set pd. p < length (vec_y s) div bs)
     \<and> vec_x s' = vec_x s \<and> tmp_ys s' = tmp_ys s
     \<and> length (vec_y s') = length (vec_y s)
     \<and> (distinct pd \<longrightarrow> length ly = length pd * bs \<longrightarrow>
          (\<forall>k<length (vec_y s). vec_y s' ! k = vec_y s ! k + scatter_term bs pd ly k))"
proof -
  from assms obtain pd Y G L L' where
    pd: "patch_slice (glob_patches ctx) i = Inr pd" and
    Y: "reshape bs (vec_y s) = Inr Y" and G: "take_rows Y pd = Inr G" and
    L: "reshape bs ly = Inr L" and L': "broadcast_rows (length G) L = Inr L'" and
    s': "s' = s\<lparr>vec_y := concat (assign_rows Y pd (map2 (map2 (+)) G L'))\<rparr>"
    unfolding add_patch_def by (auto simp: bind_err_Inr_iff)
  from reshape_Inr [OF Y] have bs: "0 < bs" and my: "length (vec_y s) mod bs = 0"
    and lY: "length Y = length (vec_y s) div bs" and Yrows: "\<forall>row\<in>set Y. length row = bs"
    and cY: "concat Y = vec_y s"
    by blast+
  from reshape_Inr [OF L] have ml: "length ly mod bs = 0"
    and lL: "length L = length ly div bs" and Lrows: "\<forall>row\<in>set L. length row = bs"
    and cL: "concat L = ly"
    by blast+
  from G have inr: "\<forall>p\<in>set pd. p < length Y" and Gdef: "G = map (\<lambda>p. Y ! p) pd"
    by (simp_all add: take_rows_Inr_iff)
  have Yrow: "length (Y ! p) = bs" if "p < length Y" for p
    using Yrows that nth_mem by blast
  have Lrow: "length (L ! p) = bs" if "p < length L" for p
    using Lrows that nth_mem by blast
  from broadcast_rows_Inr [OF L' Lrows] have lL': "length L' = length G"
    and L'rows: "\<forall>row\<in>set L'. length row = bs" and L'L: "length L = length G \<longrightarrow> L' = L"
    by blast+
  have L'row: "length (L' ! p) = bs" if "p < length L'" for p
    using L'rows that nth_mem by blast
  let ?S = "map2 (map2 (+)) G L'"
  have lS: "length ?S = length pd"
    using lL' by (simp add: Gdef)
  have Srow: "length (?S ! j) = bs" if "j < length pd" for j
    using that lL' inr Yrow L'row by (simp add: Gdef)
  have Srows: "\<forall>row\<in>set ?S. length row = bs"
  proof
    fix row assume "row \<in> set ?S"
    then obtain j where "j < length ?S" "row = ?S ! j"
      by (auto simp: in_set_conv_nth)
    with lS Srow show "length row = bs"
      by simp
  qed
  let ?Y' = "assign_rows Y pd ?S"
  have Y'rows: "\<forall>row\<in>set ?Y'. length row = bs"
    using Yrows Srows by (rule assign_rows_rows)
  have ly': "length (vec_y s') = length (vec_y s)"
  proof -
    have "length (vec_y s') = length Y * bs"
      using length_concat_uniform [OF Y'rows] by (simp add: s')
    also have "\<dots> = length (vec_y s)"
      using my lY by (simp add: mod_eq_0_iff_dvd)
    finally show ?thesis .
  qed
  have main: "vec_y s' ! k = vec_y s ! k + scatter_term bs pd ly k"
    if d: "distinct pd" and l: "length ly = length pd * bs" and k: "k < length (vec_y s)" for k
  proof -
    let ?p = "k div bs" and ?c = "k mod bs"
    from my lY have lYbs: "length Y * bs = length (vec_y s)"
      by (simp add: mod_eq_0_iff_dvd)
    from k lYbs bs have p: "?p < length Y"
      by (simp add: less_mult_imp_div_less)
    from bs have c: "?c < bs" by simp
    have old: "vec_y s ! k = Y ! ?p ! ?c"
      using nth_concat_rows [OF Yrows bs, of k] k lYbs by (simp add: cY)
    have new: "vec_y s' ! k = ?Y' ! ?p ! ?c"
      using nth_concat_rows [OF Y'rows bs, of k] k lYbs by (simp add: s')
    from l bs lL have "length L = length pd"
      by simp
    then have "length L = length G"
      by (simp add: Gdef)
    with L'L have L'eq: "L' = L" by simp
    show ?thesis
    proof (cases "?p \<in> set pd")
      case False
      then show ?thesis
        using old new by (simp add: assign_rows_other scatter_term_other)
    next
      case True
      then obtain j where j: "j < length pd" "pd ! j = ?p"
        by (auto simp: in_set_conv_nth)
      from j p have "?Y' ! (pd ! j) = ?S ! j"
        using d lS by (intro assign_rows_at) auto
      with j have "?Y' ! ?p = ?S ! j" by simp
      also from j have "?S ! j = map2 (+) (Y ! ?p) (L ! j)"
        using \<open>length L = length pd\<close> by (simp add: Gdef L'eq)
      finally have "?Y' ! ?p ! ?c = Y ! ?p ! ?c + L ! j ! ?c"
        using c p j Yrow [OF p] Lrow [of j] \<open>length L = length pd\<close> by simp
      moreover have "L ! j ! ?c = ly ! (j * bs + ?c)"
        using concat_uniform_nth [OF Lrows, of j ?c] j c \<open>length L = length pd\<close>
        by (simp add: cL)
      moreover have "scatter_term bs pd ly k = ly ! (j * bs + ?c)"
        using d j by (rule scatter_term_at)
      ultimately show ?thesis
        using old new by simp
    qed
  qed
  have inr': "\<forall>p\<in>set pd. p < length (vec_y s) div bs"
    using inr lY by simp
  have frame: "vec_x s' = vec_x s" "tmp_ys s' = tmp_ys s"
    by (simp_all add: s')
  have main': "distinct pd \<longrightarrow> length ly = length pd * bs \<longrightarrow>
          (\<forall>k<length (vec_y s). vec_y s' ! k = vec_y s ! k + scatter_term bs pd ly k)"
    using main by blast
  show ?thesis
    by (intro exI [of _ pd] conjI) (rule pd bs my ml inr' frame ly' main')+
qed

lemma add_loop:
  fixes s :: "'a::comm_monoid_add vecs"
  assumes "fold_err (add_patch ctx bs) ilys s = Inr s'"
      and "\<forall>il\<in>set ilys. \<forall>pd. patch_slice (glob_patches ctx) (fst il) = Inr pd \<longrightarrow>
             distinct pd \<and> length (snd il) = length pd * bs"
  shows "vec_x s' = vec_x s \<and> tmp_ys s' = tmp_ys s \<and> length (vec_y s') = length (vec_y s)
     \<and> (\<forall>k<length (vec_y s). vec_y s' ! k = vec_y s ! k
           + (\<Sum>il\<leftarrow>ilys. scatter_term bs (projr (patch_slice (glob_patches ctx) (fst il))) (snd il) k))"
  using assms
proof (induction ilys arbitrary: s)
  case Nil
  then show ?case by simp
next
  case (Cons il ilys)
  obtain i ly where il: "il = (i, ly)" by (cases il)
  from Cons.prems(1) obtain s1 where
    s1: "add_patch ctx bs (i, ly) s = Inr s1" and
    rest: "fold_err (add_patch ctx bs) ilys s1 = Inr s'"
    by (auto simp: il bind_err_Inr_iff)
  from add_patch_Inr [OF s1] obtain pd where
    pd: "patch_slice (glob_patches ctx) i = Inr pd" and
    fr: "vec_x s1 = vec_x s" "tmp_ys s1 = tmp_ys s" "length (vec_y s1) = length (vec_y s)" and
    st: "distinct pd \<longrightarrow> length ly = length pd * bs \<longrightarrow>
          (\<forall>k<length (vec_y s). vec_y s1 ! k = vec_y s ! k + scatter_term bs pd ly k)"
    by blast
  from Cons.prems(2) pd have "distinct pd \<and> length ly = length pd * bs"
    by (simp add: il)
  with st have step: "\<forall>k<length (vec_y s). vec_y s1 ! k = vec_y s ! k + scatter_term bs pd ly k"
    by blast
  from Cons.prems(2) have "\<forall>il\<in>set ilys. \<forall>pd. patch_slice (glob_patches ctx) (fst il) = Inr pd \<longrightarrow>
             distinct pd \<and> length (snd il) = length pd * bs"
    by simp
  from Cons.IH [OF rest this] have
    ih: "vec_x s' = vec_x s1" "tmp_ys s' = tmp_ys s1" "length (vec_y s') = length (vec_y s1)"
      "\<forall>k<length (vec_y s1). vec_y s' ! k = vec_y s1 ! k
           + (\<Sum>il\<leftarrow>ilys. scatter_term bs (projr (patch_slice (glob_patches ctx) (fst il))) (snd il) k)"
    by blast+
  have "vec_y s' ! k = vec_y s ! k
           + (\<Sum>il\<leftarrow>il # ilys. scatter_term bs (projr (patch_slice (glob_patches ctx) (fst il))) (snd il) k)"
    if "k < length (vec_y s)" for k
    using that ih(4) step fr(3) by (simp add: il pd add.assoc)
  with ih(1-3) fr show ?case
    by simp
qed

lemma solve_loop:
  assumes "fold_err (solve_patch ksp ctx bs) ims s = Inr s1"
  shows "vec_x s1 = vec_x s \<and> vec_y s1 = vec_y s
     \<and> (\<exists>lys. tmp_ys s1 = tmp_ys s @ lys \<and> length lys = length ims
          \<and> (\<forall>k<length ims. \<exists>pd bc b.
                patch_slice (glob_patches ctx) (fst (ims ! k)) = Inr pd
              \<and> patch_slice (bc_patches ctx) (fst (ims ! k)) = Inr bc
              \<and> build_rhs bs (vec_x s) (snd (ims ! k)) pd bc = Inr b
              \<and> lys ! k = ksp (snd (ims ! k)) b (replicate (ncols (snd (ims ! k))) 0)))"
  using assms
proof (induction ims arbitrary: s)
  case Nil
  then show ?case by simp
next
  case (Cons im ims)
  obtain i m where im: "im = (i, m)" by (cases im)
  from Cons.prems obtain s2 where
    s2: "solve_patch ksp ctx bs (i, m) s = Inr s2" and
    rest: "fold_err (solve_patch ksp ctx bs) ims s2 = Inr s1"
    by (auto simp: im bind_err_Inr_iff)
  from solve_patch_Inr [OF s2] obtain pd bc b where
    pd: "patch_slice (glob_patches ctx) i = Inr pd" and
    bc: "patch_slice (bc_patches ctx) i = Inr bc" and
    b: "build_rhs bs (vec_x s) m pd bc = Inr b" and
    s2def: "s2 = s\<lparr>tmp_ys := tmp_ys s @ [ksp m b (replicate (ncols m) 0)],
                  ksp_operators := Some m\<rparr>"
    by blast
  from Cons.IH [OF rest] obtain lys where
    ih: "vec_x s1 = vec_x s2" "vec_y s1 = vec_y s2" "tmp_ys s1 = tmp_ys s2 @ lys"
      "length lys = length ims" and
    each: "\<forall>k<length ims. \<exists>pd bc b.
                patch_slice (glob_patches ctx) (fst (ims ! k)) = Inr pd
              \<and> patch_slice (bc_patches ctx) (fst (ims ! k)) = Inr bc
              \<and> build_rhs bs (vec_x s2) (snd (ims ! k)) pd bc = Inr b
              \<and> lys ! k = ksp (snd (ims ! k)) b (replicate (ncols (snd (ims ! k))) 0)"
    by blast
  let ?ly = "ksp m b (replicate (ncols m) 0)"
  have x2: "vec_x s2 = vec_x s" "vec_y s2 = vec_y s"
    by (simp_all add: s2def)
  have "\<exists>pd bc b.
                patch_slice (glob_patches ctx) (fst ((im # ims) ! k)) = Inr pd
              \<and> patch_slice (bc_patches ctx) (fst ((im # ims) ! k)) = Inr bc
              \<and> build_rhs bs (vec_x s) (snd ((im # ims) ! k)) pd bc = Inr b
              \<and> (?ly # lys) ! k = ksp (snd ((im # ims) ! k)) b (replicate (ncols (snd ((im # ims) ! k))) 0)"
    if "k < length (im # ims)" for k
  proof (cases k)
    case 0
    with pd bc b show ?thesis by (auto simp: im)
  next
    case (Suc k')
    with that each x2 show ?thesis by simp
  qed
  moreover have "tmp_ys s1 = tmp_ys s @ (?ly # lys)"
    by (simp add: ih(3) s2def)
  moreover have "length (?ly # lys) = length (im # ims)"
    by (simp add: ih(4))
  ultimately show ?case
    using ih(1,2) x2 by (intro conjI exI [of _ "?ly # lys"]) simp_all
qed

lemma length_enumerate_py [simp]: "length (enumerate_py xs) = length xs"
  by (simp add: enumerate_py_def)

lemma nth_enumerate_py: "k < length xs \<Longrightarrow> enumerate_py xs ! k = (k, xs ! k)"
  by (simp add: enumerate_py_def)

lemma apply_loops_Inr:
  fixes s0 :: "'a::comm_monoid_add vecs"
  assumes ok: "apply_loops ksp ctx bs mats s0 = Inr s'"
      and t0: "tmp_ys s0 = []"
      and wf: "\<forall>i<length mats. \<forall>pd. patch_slice (glob_patches ctx) i = Inr pd \<longrightarrow>
                 distinct pd \<and> length pd * bs = nrows (mats ! i) \<and> ncols (mats ! i) = nrows (mats ! i)"
      and ksp: "\<forall>m b ly. length (ksp m b ly) = length ly"
  shows "vec_x s' = vec_x s0 \<and> length (vec_y s') = length (vec_y s0)
     \<and> length (tmp_ys s') = length mats
     \<and> (\<forall>k<length (vec_y s0). vec_y s' ! k = vec_y s0 ! k
           + (\<Sum>P\<leftarrow>patches_of ctx mats. patch_correction ksp bs (vec_x s0) P k))"
proof -
  let ?n = "length mats"
  from ok obtain s1 where
    l1: "fold_err (solve_patch ksp ctx bs) (enumerate_py mats) s0 = Inr s1" and
    l2: "fold_err (add_patch ctx bs) (enumerate_py (tmp_ys s1)) s1 = Inr s'"
    by (auto simp: apply_loops_def bind_err_Inr_iff)
  from solve_loop [OF l1] t0 obtain lys where
    fr1: "vec_x s1 = vec_x s0" "vec_y s1 = vec_y s0" and
    lys: "tmp_ys s1 = lys" "length lys = ?n" and
    each: "\<forall>k<?n. \<exists>pd bc b.
                patch_slice (glob_patches ctx) (fst (enumerate_py mats ! k)) = Inr pd
              \<and> patch_slice (bc_patches ctx) (fst (enumerate_py mats ! k)) = Inr bc
              \<and> build_rhs bs (vec_x s0) (snd (enumerate_py mats ! k)) pd bc = Inr b
              \<and> lys ! k = ksp (snd (enumerate_py mats ! k)) b
                             (replicate (ncols (snd (enumerate_py mats ! k))) 0)"
    by auto
  have item: "patch_slice (glob_patches ctx) k
        = Inr (projr (patch_slice (glob_patches ctx) k))
      \<and> distinct (projr (patch_slice (glob_patches ctx) k))
      \<and> length (lys ! k) = length (projr (patch_slice (glob_patches ctx) k)) * bs
      \<and> lys ! k = ksp (mats ! k)
           (local_rhs bs (vec_x s0) (projr (patch_slice (glob_patches ctx) k))
              (projr (patch_slice (bc_patches ctx) k)))
           (replicate (ncols (mats ! k)) 0)"
    if k: "k < ?n" for k
  proof -
    from each k obtain pd bc b where
      pd: "patch_slice (glob_patches ctx) k = Inr pd" and
      bc: "patch_slice (bc_patches ctx) k = Inr bc" and
      b: "build_rhs bs (vec_x s0) (mats ! k) pd bc = Inr b" and
      ly: "lys ! k = ksp (mats ! k) b (replicate (ncols (mats ! k)) 0)"
      by (auto simp: nth_enumerate_py)
    from wf k pd have d: "distinct pd" and n: "length pd * bs = nrows (mats ! k)"
      and sq: "ncols (mats ! k) = nrows (mats ! k)"
      by blast+
    from build_rhs_Inr [OF b] n have "b = local_rhs bs (vec_x s0) pd bc"
      by blast
    moreover from ksp have "length (lys ! k) = ncols (mats ! k)"
      by (simp add: ly)
    ultimately show ?thesis
      using pd bc d n sq ly by simp
  qed
  have "\<forall>il\<in>set (enumerate_py lys). \<forall>pd. patch_slice (glob_patches ctx) (fst il) = Inr pd \<longrightarrow>
             distinct pd \<and> length (snd il) = length pd * bs"
  proof
    fix il assume "il \<in> set (enumerate_py lys)"
    then obtain k where k: "k < ?n" and il: "il = (k, lys ! k)"
      using lys(2) by (auto simp: in_set_conv_nth nth_enumerate_py)
    from item [OF k] show "\<forall>pd. patch_slice (glob_patches ctx) (fst il) = Inr pd \<longrightarrow>
             distinct pd \<and> length (snd il) = length pd * bs"
      by (auto simp: il)
  qed
  from add_loop [OF l2 [unfolded lys(1)] this] have
    fr2: "vec_x s' = vec_x s1" "tmp_ys s' = tmp_ys s1" "length (vec_y s') = length (vec_y s1)" and
    sum: "\<forall>k<length (vec_y s1). vec_y s' ! k = vec_y s1 ! k
           + (\<Sum>il\<leftarrow>enumerate_py lys.
                scatter_term bs (projr (patch_slice (glob_patches ctx) (fst il))) (snd il) k)"
    by blast+
  have same: "map (\<lambda>il. scatter_term bs (projr (patch_slice (glob_patches ctx) (fst il))) (snd il) k)
                (enumerate_py lys)
            = map (\<lambda>P. patch_correction ksp bs (vec_x s0) P k) (patches_of ctx mats)" for k
  proof (rule nth_equalityI)
    show "length (map (\<lambda>il. scatter_term bs (projr (patch_slice (glob_patches ctx) (fst il))) (snd il) k)
                (enumerate_py lys))
        = length (map (\<lambda>P. patch_correction ksp bs (vec_x s0) P k) (patches_of ctx mats))"
      by (simp add: lys(2) patches_of_def)
  next
    fix j
    assume "j < length (map (\<lambda>il. scatter_term bs (projr (patch_slice (glob_patches ctx) (fst il))) (snd il) k)
                (enumerate_py lys))"
    then have j: "j < ?n"
      by (simp add: lys(2))
    from item [OF j] have "lys ! j = ksp (mats ! j)
           (local_rhs bs (vec_x s0) (projr (patch_slice (glob_patches ctx) j))
              (projr (patch_slice (bc_patches ctx) j)))
           (replicate (ncols (mats ! j)) 0)"
      by blast
    with j show "map (\<lambda>il. scatter_term bs (projr (patch_slice (glob_patches ctx) (fst il))) (snd il) k)
                (enumerate_py lys) ! j
        = map (\<lambda>P. patch_correction ksp bs (vec_x s0) P k) (patches_of ctx mats) ! j"
      by (simp add: lys(2) nth_enumerate_py patches_of_def patch_correction_def)
  qed
  have "vec_y s' ! k = vec_y s0 ! k
           + (\<Sum>P\<leftarrow>patches_of ctx mats. patch_correction ksp bs (vec_x s0) P k)"
    if "k < length (vec_y s0)" for k
    using sum that by (simp add: fr1 same)
  then show ?thesis
    using fr1 fr2 lys by simp
qed

section \<open>PatchPC.apply returns on well-formed data\<close>

lemma well_formedD:
  assumes "well_formed ctx N" and "i < length (offset (dof_patches ctx)) - 1"
  shows "0 < dim (self_V ctx)"
    and "i + 1 < length (offset (glob_patches ctx))"
    and "i + 1 < length (offset (bc_patches ctx))"
    and "i + 1 < length (offset (self_cells ctx))"
    and "i < length (offset (dof_patches ctx))"
    and "offset (glob_patches ctx) ! i \<le> offset (glob_patches ctx) ! (i + 1)"
    and "\<exists>pd. patch_slice (glob_patches ctx) i = Inr pd \<and> distinct pd
           \<and> length pd = offset (glob_patches ctx) ! (i + 1) - offset (glob_patches ctx) ! i
           \<and> (\<forall>p\<in>set pd. p < N)"
    and "\<exists>bc. patch_slice (bc_patches ctx) i = Inr bc
           \<and> (\<forall>r\<in>set bc. r < offset (glob_patches ctx) ! (i + 1) - offset (glob_patches ctx) ! i)"
proof -
  let ?n = "length (offset (dof_patches ctx)) - 1"
  let ?g = "glob_patches ctx" and ?b = "bc_patches ctx"
  from assms(1) have dm: "0 < dim (self_V ctx)"
    and ln: "?n < length (offset ?g)" "?n < length (offset ?b)" "?n < length (offset (self_cells ctx))"
    and all: "\<forall>i<?n. offset ?g ! i \<le> offset ?g ! (i + 1) \<and> offset ?g ! (i + 1) \<le> length (csr_value ?g)
           \<and> distinct (py_slice (csr_value ?g) (offset ?g ! i) (offset ?g ! (i + 1)))
           \<and> (\<forall>p\<in>set (py_slice (csr_value ?g) (offset ?g ! i) (offset ?g ! (i + 1))). p < N)
           \<and> (\<forall>r\<in>set (py_slice (csr_value ?b) (offset ?b ! i) (offset ?b ! (i + 1))).
                 r < offset ?g ! (i + 1) - offset ?g ! i)"
    unfolding well_formed_def Let_def by (simp_all add: list_all_iff)
  from all assms(2) have i: "offset ?g ! i \<le> offset ?g ! (i + 1)"
      "offset ?g ! (i + 1) \<le> length (csr_value ?g)"
      "distinct (py_slice (csr_value ?g) (offset ?g ! i) (offset ?g ! (i + 1)))"
      "\<forall>p\<in>set (py_slice (csr_value ?g) (offset ?g ! i) (offset ?g ! (i + 1))). p < N"
      "\<forall>r\<in>set (py_slice (csr_value ?b) (offset ?b ! i) (offset ?b ! (i + 1))).
                 r < offset ?g ! (i + 1) - offset ?g ! i"
    by blast+
  show "0 < dim (self_V ctx)" by (rule dm)
  from ln assms(2) show g1: "i + 1 < length (offset ?g)" and b1: "i + 1 < length (offset ?b)"
    and "i + 1 < length (offset (self_cells ctx))" and "i < length (offset (dof_patches ctx))"
    by simp_all
  show "offset ?g ! i \<le> offset ?g ! (i + 1)" by (rule i(1))
  have "length (py_slice (csr_value ?g) (offset ?g ! i) (offset ?g ! (i + 1)))
      = offset ?g ! (i + 1) - offset ?g ! i"
    using i(1,2) by (simp add: py_slice_def)
  with g1 i(3,4) show "\<exists>pd. patch_slice ?g i = Inr pd \<and> distinct pd
           \<and> length pd = offset ?g ! (i + 1) - offset ?g ! i \<and> (\<forall>p\<in>set pd. p < N)"
    by (simp add: patch_slice_Inr_iff)
  from b1 i(5) show "\<exists>bc. patch_slice ?b i = Inr bc
           \<and> (\<forall>r\<in>set bc. r < offset ?g ! (i + 1) - offset ?g ! i)"
    by (simp add: patch_slice_Inr_iff)
qed

lemma fold_err_ok:
  assumes "I s" and "\<And>x s. x \<in> set xs \<Longrightarrow> I s \<Longrightarrow> \<exists>s'. f x s = Inr s' \<and> I s'"
  shows "\<exists>s'. fold_err f xs s = Inr s' \<and> I s'"
  using assms
proof (induction xs arbitrary: s)
  case Nil
  then show ?case by simp
next
  case (Cons x xs)
  from Cons.prems(2) [of x s] Cons.prems(1) obtain s1 where s1: "f x s = Inr s1" "I s1"
    by auto
  from Cons.IH [OF s1(2)] Cons.prems(2) obtain s' where "fold_err f xs s1 = Inr s'" "I s'"
    by auto
  with s1 show ?case by simp
qed

lemma map_err_ok:
  assumes "\<And>x. x \<in> set xs \<Longrightarrow> \<exists>v. f x = Inr v"
  shows "\<exists>vs. map_err f xs = Inr vs"
  using assms
proof (induction xs)
  case Nil
  then show ?case by simp
next
  case (Cons x xs)
  from Cons.prems [of x] obtain v where "f x = Inr v" by auto
  moreover from Cons.IH Cons.prems obtain vs where "map_err f xs = Inr vs" by auto
  ultimately show ?case by simp
qed

lemma dstack_index_less:
  assumes "r < q" and "c < dm"
  shows "dm * r + c < q * (dm::nat)"
proof -
  from assms have "dm * r + c < dm * Suc r" by simp
  also from assms have "dm * Suc r \<le> dm * q" by (intro mult_le_mono2) simp
  finally show ?thesis by (simp add: mult.commute)
qed

lemma patch_matrix_ok:
  assumes "i + 1 < length (offset (glob_patches ctx))"
      and "offset (glob_patches ctx) ! i \<le> offset (glob_patches ctx) ! (i + 1)"
      and "i < length (offset (dof_patches ctx))"
      and "i + 1 < length (offset (self_cells ctx))"
      and "patch_slice (bc_patches ctx) i = Inr bc"
      and "\<forall>r\<in>set bc. r < offset (glob_patches ctx) ! (i + 1) - offset (glob_patches ctx) ! i"
      and "0 < dm"
  shows "\<exists>M. patch_matrix mc dm ctx i = Inr M"
proof -
  let ?q = "offset (glob_patches ctx) ! (i + 1) - offset (glob_patches ctx) ! i"
  let ?rows = "concat (map (\<lambda>r. map (\<lambda>c. dm * r + c) [0..<dm]) bc)"
  have "r' < ?q * dm" if "r' \<in> set ?rows" for r'
  proof -
    from that obtain r c where "r \<in> set bc" "c < dm" "r' = dm * r + c"
      unfolding set_dstack by blast
    with assms(6) show ?thesis
      using dstack_index_less [of r ?q c dm] by simp
  qed
  then have z: "\<exists>M. zeroRowsColumns ?rows A = Inr M" if "nrows A = ?q * dm" for A :: "'a mat"
    using that by (simp add: zeroRowsColumns_Inr_iff)
  have d: "dstack_flatten dm bc = Inr ?rows"
    using assms(7) by (simp add: dstack_flatten_def)
  show ?thesis
    unfolding patch_matrix_def Let_def
    using assms(1-5) d
    by (simp add: index_def not_less z)
qed

lemma reshape_ok:
  assumes "0 < bs" and "length v mod bs = 0"
  shows "\<exists>R. reshape bs v = Inr R"
  using assms by (simp add: reshape_def)

lemma build_rhs_ok:
  fixes x :: "'a::zero list"
  assumes bs: "0 < bs" and mx: "length x mod bs = 0"
      and pd: "\<forall>p\<in>set pd. p < length x div bs"
      and n: "nrows m = length pd * bs"
      and bc: "\<forall>r\<in>set bc. r < length pd"
  shows "\<exists>b. build_rhs bs x m pd bc = Inr b"
proof -
  from reshape_ok [OF bs mx] obtain X where X: "reshape bs x = Inr X" by blast
  from reshape_Inr [OF X] have lX: "length X = length x div bs" by blast
  with pd have G: "take_rows X pd = Inr (map (\<lambda>p. X ! p) pd)"
    by (simp add: take_rows_Inr_iff)
  have "length (replicate (nrows m) (0::'a)) mod bs = 0"
    by (simp add: n)
  from reshape_ok [OF bs this] obtain B where B: "reshape bs (replicate (nrows m) (0::'a)) = Inr B"
    by blast
  from reshape_replicate [OF B] bs have lB: "length B = length pd"
    by (simp add: n)
  then have B1: "broadcast_rows (length B) (map (\<lambda>p. X ! p) pd) = Inr (map (\<lambda>p. X ! p) pd)"
    by (simp add: broadcast_rows_def)
  from bc have "\<exists>B2. set_rows_zero bs (map (\<lambda>p. X ! p) pd) bc = Inr B2"
    by (simp add: set_rows_zero_Inr_iff)
  then obtain B2 where B2: "set_rows_zero bs (map (\<lambda>p. X ! p) pd) bc = Inr B2"
    by blast
  show ?thesis
    unfolding build_rhs_def Let_def
    by (simp add: X G B B1 B2)
qed

lemma solve_patch_ok:
  fixes s :: "'a::zero vecs"
  assumes "patch_slice (glob_patches ctx) i = Inr pd"
      and "patch_slice (bc_patches ctx) i = Inr bc"
      and "0 < bs" and "length (vec_x s) mod bs = 0"
      and "\<forall>p\<in>set pd. p < length (vec_x s) div bs"
      and "nrows m = length pd * bs"
      and "\<forall>r\<in>set bc. r < length pd"
  shows "\<exists>s'. solve_patch ksp ctx bs (i, m) s = Inr s'"
proof -
  from build_rhs_ok [OF assms(3-7)] obtain b where "build_rhs bs (vec_x s) m pd bc = Inr b"
    by blast
  with assms(1,2) show ?thesis
    by (simp add: solve_patch_def Let_def)
qed

lemma add_patch_ok:
  fixes s :: "'a::plus vecs"
  assumes pd: "patch_slice (glob_patches ctx) i = Inr pd"
      and bs: "0 < bs" and my: "length (vec_y s) mod bs = 0"
      and inr: "\<forall>p\<in>set pd. p < length (vec_y s) div bs"
      and ly: "length ly = length pd * bs"
  shows "\<exists>s'. add_patch ctx bs (i, ly) s = Inr s'"
proof -
  from reshape_ok [OF bs my] obtain Y where Y: "reshape bs (vec_y s) = Inr Y" by blast
  from reshape_Inr [OF Y] have lY: "length Y = length (vec_y s) div bs" by blast
  with inr have G: "take_rows Y pd = Inr (map (\<lambda>p. Y ! p) pd)"
    by (simp add: take_rows_Inr_iff)
  have "length ly mod bs = 0"
    by (simp add: ly)
  from reshape_ok [OF bs this] obtain L where L: "reshape bs ly = Inr L" by blast
  from reshape_Inr [OF L] bs have "length L = length pd"
    by (simp add: ly)
  then have L': "broadcast_rows (length pd) L = Inr L"
    by (simp add: broadcast_rows_def)
  show ?thesis
    unfolding add_patch_def
    by (simp add: pd Y G L L')
qed

lemma in_set_enumerate_py:
  "il \<in> set (enumerate_py xs) \<longleftrightarrow> (\<exists>k<length xs. il = (k, xs ! k))"
  by (auto simp: in_set_conv_nth nth_enumerate_py)

lemma PatchPC_apply_total:
  fixes x :: "'a::{comm_monoid_add,one} list"
  assumes wf: "well_formed ctx N"
      and V: "globals ''V'' = Some Vg"
      and cd: "cdim Vg = dim (self_V ctx)"
      and lx: "length x = N * dim (self_V ctx)"
      and ly: "length y = N * dim (self_V ctx)"
      and ksp: "\<forall>m b l. length (ksp m b l) = length l"
  shows "\<exists>mats s'. matrices mc globals ctx = Inr mats
     \<and> length mats = length (offset (dof_patches ctx)) - 1
     \<and> PatchPC_apply ksp mc globals ctx x y = Inr s'
     \<and> vec_x s' = x \<and> length (tmp_ys s') = length mats
     \<and> vec_y s' = smoother ksp (dim (self_V ctx)) x (patches_of ctx mats) (length y)"
proof -
  let ?bs = "dim (self_V ctx)"
  let ?n = "length (offset (dof_patches ctx)) - 1"
  let ?g = "glob_patches ctx"
  let ?q = "\<lambda>i. offset ?g ! (i + 1) - offset ?g ! i"
  note D = well_formedD [OF wf]
  have bs: "0 < ?bs"
    using wf by (simp add: well_formed_def Let_def)
  have "\<exists>M. patch_matrix mc ?bs ctx i = Inr M" if "i \<in> set [0..<?n]" for i
  proof -
    from that have i: "i < ?n" by simp
    from D(8) [OF i] obtain bc where
      "patch_slice (bc_patches ctx) i = Inr bc" "\<forall>r\<in>set bc. r < ?q i"
      by blast
    with D(2,6,5,4) [OF i] bs show ?thesis
      by (intro patch_matrix_ok) auto
  qed
  from map_err_ok [of "[0..<?n]" "patch_matrix mc ?bs ctx", OF this]
  obtain mats :: "'a mat list" where m0: "map_err (patch_matrix mc ?bs ctx) [0..<?n] = Inr mats"
    by blast
  then have mats: "matrices mc globals ctx = Inr mats"
    by (simp add: matrices_def V cd)
  from m0 have lm: "length mats = ?n"
    and pm: "\<forall>k<?n. patch_matrix mc ?bs ctx k = Inr (mats ! k)"
    by (auto simp: map_err_Inr_iff)
  have sz: "nrows (mats ! k) = ?q k * ?bs \<and> ncols (mats ! k) = nrows (mats ! k)" if "k < ?n" for k
    using patch_matrix_Inr [of mc ?bs ctx k "mats ! k"] pm that by simp
  have patch: "\<exists>pd bc. patch_slice ?g k = Inr pd \<and> patch_slice (bc_patches ctx) k = Inr bc
       \<and> distinct pd \<and> length pd * ?bs = nrows (mats ! k) \<and> ncols (mats ! k) = nrows (mats ! k)
       \<and> (\<forall>p\<in>set pd. p < N) \<and> (\<forall>r\<in>set bc. r < length pd)"
    if k: "k < ?n" for k
  proof -
    from D(7) [OF k] obtain pd where
      pd: "patch_slice ?g k = Inr pd" "distinct pd" "length pd = ?q k" "\<forall>p\<in>set pd. p < N"
      by blast
    from D(8) [OF k] obtain bc where
      bc: "patch_slice (bc_patches ctx) k = Inr bc" "\<forall>r\<in>set bc. r < ?q k"
      by blast
    from pd bc sz [OF k] show ?thesis
      by auto
  qed
  have Nbs: "(N * ?bs) mod ?bs = 0" "(N * ?bs) div ?bs = N"
    using bs by simp_all
  let ?s0 = "\<lparr>vec_x = x, vec_y = replicate (length y) (0::'a), tmp_ys = [],
              ksp_operators = None\<rparr>"
  have step1: "\<exists>s'. solve_patch ksp ctx ?bs im s = Inr s' \<and> vec_x s' = x"
    if im: "im \<in> set (enumerate_py mats)" and s: "vec_x s = x" for im and s :: "'a vecs"
  proof -
    from im lm obtain k where k: "k < ?n" and imk: "im = (k, mats ! k)"
      by (auto simp: in_set_enumerate_py)
    from patch [OF k] obtain pd bc where
      p: "patch_slice ?g k = Inr pd" "patch_slice (bc_patches ctx) k = Inr bc"
         "length pd * ?bs = nrows (mats ! k)" "\<forall>p\<in>set pd. p < N" "\<forall>r\<in>set bc. r < length pd"
      by blast
    have "\<exists>s'. solve_patch ksp ctx ?bs (k, mats ! k) s = Inr s'"
      using p bs by (intro solve_patch_ok [of ctx k pd bc]) (simp_all add: s lx Nbs)
    then obtain s' where s': "solve_patch ksp ctx ?bs (k, mats ! k) s = Inr s'"
      by blast
    from solve_patch_Inr [OF s'] have "vec_x s' = vec_x s"
      by auto
    with s' s show ?thesis
      by (auto simp: imk)
  qed
  from fold_err_ok [of "\<lambda>s. vec_x s = x" ?s0 "enumerate_py mats" "solve_patch ksp ctx ?bs", OF _ step1]
  obtain s1 where s1: "fold_err (solve_patch ksp ctx ?bs) (enumerate_py mats) ?s0 = Inr s1"
    by auto
  from solve_loop [OF s1] obtain lys where
    fr1: "vec_x s1 = x" "vec_y s1 = replicate (length y) 0" and
    lys: "tmp_ys s1 = lys" "length lys = ?n" and
    each: "\<forall>k<?n. \<exists>pd bc b.
                patch_slice ?g (fst (enumerate_py mats ! k)) = Inr pd
              \<and> patch_slice (bc_patches ctx) (fst (enumerate_py mats ! k)) = Inr bc
              \<and> build_rhs ?bs x (snd (enumerate_py mats ! k)) pd bc = Inr b
              \<and> lys ! k = ksp (snd (enumerate_py mats ! k)) b
                             (replicate (ncols (snd (enumerate_py mats ! k))) 0)"
    by (auto simp: lm)
  have llys: "length (lys ! k) = ncols (mats ! k)" if "k < ?n" for k
  proof -
    from each that obtain b where "lys ! k = ksp (mats ! k) b (replicate (ncols (mats ! k)) 0)"
      by (auto simp: nth_enumerate_py lm)
    with ksp show ?thesis by simp
  qed
  have step2: "\<exists>s'. add_patch ctx ?bs il s = Inr s' \<and> length (vec_y s') = N * ?bs"
    if il: "il \<in> set (enumerate_py lys)" and s: "length (vec_y s) = N * ?bs"
    for il and s :: "'a vecs"
  proof -
    from il lys(2) obtain k where k: "k < ?n" and ilk: "il = (k, lys ! k)"
      by (auto simp: in_set_enumerate_py)
    from patch [OF k] obtain pd where
      p: "patch_slice ?g k = Inr pd" "length pd * ?bs = nrows (mats ! k)"
         "ncols (mats ! k) = nrows (mats ! k)" "\<forall>p\<in>set pd. p < N"
      by blast
    have "\<exists>s'. add_patch ctx ?bs (k, lys ! k) s = Inr s'"
      using p bs llys [OF k] by (intro add_patch_ok [of ctx k pd]) (simp_all add: s Nbs)
    then obtain s' where s': "add_patch ctx ?bs (k, lys ! k) s = Inr s'"
      by blast
    from add_patch_Inr [OF s'] have "length (vec_y s') = length (vec_y s)"
      by blast
    with s' s show ?thesis
      by (auto simp: ilk)
  qed
  have "length (vec_y s1) = N * ?bs"
    by (simp add: fr1 ly)
  from fold_err_ok [of "\<lambda>s. length (vec_y s) = N * ?bs" s1 "enumerate_py lys" "add_patch ctx ?bs",
      OF this step2]
  obtain s' where s': "fold_err (add_patch ctx ?bs) (enumerate_py lys) s1 = Inr s'"
    by auto
  have loops: "apply_loops ksp ctx ?bs mats ?s0 = Inr s'"
    by (simp add: apply_loops_def s1 lys(1) s')
  then have app: "PatchPC_apply ksp mc globals ctx x y = Inr s'"
    by (simp add: PatchPC_apply_def Let_def mats)
  have "\<forall>i<length mats. \<forall>pd. patch_slice ?g i = Inr pd \<longrightarrow>
          distinct pd \<and> length pd * ?bs = nrows (mats ! i) \<and> ncols (mats ! i) = nrows (mats ! i)"
    using patch lm by fastforce
  from apply_loops_Inr [OF loops _ this ksp] have
    res: "vec_x s' = x" "length (vec_y s') = length y" "length (tmp_ys s') = length mats"
      "\<forall>k<length y. vec_y s' ! k = 0 + (\<Sum>P\<leftarrow>patches_of ctx mats. patch_correction ksp ?bs x P k)"
    by simp_all
  have "vec_y s' = smoother ksp ?bs x (patches_of ctx mats) (length y)"
    by (rule nth_equalityI) (simp_all add: res smoother_def)
  with mats lm app res(1,3) show ?thesis
    by blast
qed

lemma rhs_row_length:
  assumes "p < length x div bs"
  shows "length (if b then replicate bs z else take bs (drop (p * bs) x)) = bs"
proof (cases b)
  case True
  then show ?thesis by simp
next
  case False
  have "length (take bs (drop (p * bs) x)) = bs"
    using assms by (rule chunk_length)
  with False show ?thesis by (simp only: if_False)
qed

lemma rhs_row_nth:
  assumes "p < length x div bs" and "c < bs"
  shows "take bs (drop (p * bs) x) ! c = x ! (p * bs + c)"
proof -
  have "length (take bs (drop (p * bs) x)) = bs"
    using assms(1) by (rule chunk_length)
  then have "bs \<le> length x - p * bs"
    by simp
  with assms(2) show ?thesis
    by simp
qed

lemma local_rhs_nth:
  fixes x :: "'a::zero list"
  assumes bs: "0 < bs" and pd: "\<forall>p\<in>set pd. p < length x div bs"
      and j: "j < length pd" and c: "c < bs"
  shows "local_rhs bs x pd bc ! (j * bs + c) = (if j \<in> set bc then 0 else x ! (pd ! j * bs + c))"
proof -
  define row where "row = (\<lambda>j. if j \<in> set bc then replicate bs (0::'a) else take bs (drop (pd ! j * bs) x))"
  define R where "R = map row [0..<length pd]"
  have in_range: "pd ! i < length x div bs" if "i < length pd" for i
    using pd that by simp
  have len: "length (row i) = bs" if "i < length pd" for i
    unfolding row_def using in_range [OF that] by (rule rhs_row_length)
  have rows: "\<forall>r\<in>set R. length r = bs"
  proof
    fix r assume "r \<in> set R"
    then obtain i where "i < length pd" "r = row i"
      unfolding R_def by auto
    with len show "length r = bs"
      by simp
  qed
  have lR: "j < length R"
    using j by (simp add: R_def)
  have "concat R ! (j * bs + c) = R ! j ! c"
    using rows lR c by (rule concat_uniform_nth)
  also have "R ! j = row j"
    using j by (simp add: R_def)
  also have "row j ! c = (if j \<in> set bc then 0 else x ! (pd ! j * bs + c))"
  proof (cases "j \<in> set bc")
    case True
    with c show ?thesis by (simp add: row_def)
  next
    case False
    with rhs_row_nth [OF in_range [OF j] c] show ?thesis
      by (simp only: row_def if_False)
  qed
  finally have "concat R ! (j * bs + c) = (if j \<in> set bc then 0 else x ! (pd ! j * bs + c))" .
  then show ?thesis
    unfolding local_rhs_def R_def row_def .
qed

lemma patches_of_member:
  assumes "P \<in> set (patches_of ctx mats)"
  shows "\<exists>i<length mats. P = (mats ! i, projr (patch_slice (glob_patches ctx) i),
                                    projr (patch_slice (bc_patches ctx) i))"
  using assms by (auto simp: patches_of_def)

text \<open>Running the smoother on the example data.\<close>

lemmas apply_defs = PatchPC_apply_def apply_loops_def enumerate_py_def solve_patch_def
  add_patch_def build_rhs_def reshape_def take_rows_def broadcast_rows_def set_rows_zero_def
  assign_rows_def

lemma replicate_2: "replicate 2 z = [z, z]"
  by (simp add: numeral_2_eq_2)

lemma well_formed_ctx_ex: "well_formed ctx_ex 3"
  by (simp add: well_formed_def ctx_ex_def VectorFunctionSpace_ex_def py_slice_def Let_def upt_rec)

lemma ksp_solve_ex_length: "\<forall>m b l. length (ksp_solve_ex m b l) = length l"
  by (simp add: ksp_solve_ex_def)

lemma smoother_mset:
  assumes "mset ps = mset ps'"
  shows "smoother ksp bs x ps n = smoother ksp bs x ps' n"
proof -
  have "(\<Sum>P\<leftarrow>ps. f P) = (\<Sum>P\<leftarrow>ps'. f P)"
    for f :: "'a mat \<times> nat list \<times> nat list \<Rightarrow> 'a"
  proof -
    have "(\<Sum>P\<leftarrow>ps. f P) = sum_mset (image_mset f (mset ps))"
      by (metis mset_map sum_mset_sum_list)
    also have "\<dots> = sum_mset (image_mset f (mset ps'))"
      by (simp only: assms)
    also have "\<dots> = (\<Sum>P\<leftarrow>ps'. f P)"
      by (metis mset_map sum_mset_sum_list)
    finally show ?thesis .
  qed
  then show ?thesis
    by (simp add: smoother_def)
qed

lemma well_formed_ctx_perm_ex: "well_formed ctx_perm_ex 3"
  by (simp add: well_formed_def ctx_perm_ex_def ctx_ex_def VectorFunctionSpace_ex_def py_slice_def
        Let_def upt_rec)

lemma matrices_ctx_ex:
  "matrices matrix_callable_ex globals_ex ctx_ex
     = Inr (projr (matrices matrix_callable_ex globals_ex ctx_ex))"
  by (simp add: ex_defs run_defs)

lemma matrices_ctx_perm_ex:
  "matrices matrix_callable_ex globals_ex ctx_perm_ex
     = Inr (projr (matrices matrix_callable_ex globals_ex ctx_perm_ex))"
  by (simp add: ctx_perm_ex_def ex_defs run_defs)

lemma matrices_ctx_ex_value:
  "projr (matrices matrix_callable_ex globals_ex ctx_ex)
     = [patch_mat_ex 4 [0, 1], patch_mat_ex 4 [2, 3], patch_mat_ex 2 [0, 1]]"
  by (simp add: ex_defs run_defs patch_mat_ex_def fun_eq_iff)

lemma matrices_ctx_perm_ex_value:
  "projr (matrices matrix_callable_ex globals_ex ctx_perm_ex)
     = [patch_mat_ex 2 [0, 1], patch_mat_ex 4 [0, 1], patch_mat_ex 4 [2, 3]]"
  by (simp add: ctx_perm_ex_def ex_defs run_defs patch_mat_ex_def fun_eq_iff)

lemma patches_ctx_ex:
  "patches_of ctx_ex (projr (matrices matrix_callable_ex globals_ex ctx_ex))
     = [(patch_mat_ex 4 [0, 1], [0, 1], [0]), (patch_mat_ex 4 [2, 3], [1, 2], [1]),
        (patch_mat_ex 2 [0, 1], [2], [0])]"
  unfolding matrices_ctx_ex_value
  by (simp add: patches_of_def ctx_ex_def patch_slice_def index_def py_slice_def upt_rec)

lemma patches_ctx_perm_ex:
  "patches_of ctx_perm_ex (projr (matrices matrix_callable_ex globals_ex ctx_perm_ex))
     = [(patch_mat_ex 2 [0, 1], [2], [0]), (patch_mat_ex 4 [0, 1], [0, 1], [0]),
        (patch_mat_ex 4 [2, 3], [1, 2], [1])]"
  unfolding matrices_ctx_perm_ex_value
  by (simp add: patches_of_def ctx_perm_ex_def ctx_ex_def patch_slice_def index_def py_slice_def upt_rec)

lemma patches_perm_ex:
  "mset (patches_of ctx_ex (projr (matrices matrix_callable_ex globals_ex ctx_ex)))
     = mset (patches_of ctx_perm_ex (projr (matrices matrix_callable_ex globals_ex ctx_perm_ex)))"
  unfolding patches_ctx_ex patches_ctx_perm_ex
  by (simp add: add_mset_commute)

section \<open>The shared solver\<close>

lemma solve_loop_ksp:
  assumes "fold_err (solve_patch ksp ctx bs) ims s = Inr s1"
  shows "ksp_operators s1 = (if ims = [] then ksp_operators s else Some (snd (last ims)))"
  using assms
proof (induction ims arbitrary: s)
  case Nil
  then show ?case by simp
next
  case (Cons im ims)
  obtain i m where im: "im = (i, m)" by (cases im)
  from Cons.prems obtain s2 where
    s2: "solve_patch ksp ctx bs (i, m) s = Inr s2" and
    rest: "fold_err (solve_patch ksp ctx bs) ims s2 = Inr s1"
    by (auto simp: im bind_err_Inr_iff)
  from solve_patch_Inr [OF s2] have "ksp_operators s2 = Some m"
    by auto
  with Cons.IH [OF rest] show ?case
    by (simp add: im)
qed

lemma add_patch_frame:
  assumes "add_patch ctx bs il s = Inr s'"
  shows "vec_x s' = vec_x s \<and> tmp_ys s' = tmp_ys s \<and> ksp_operators s' = ksp_operators s"
  using assms unfolding add_patch_def
  by (auto simp: bind_err_Inr_iff split: prod.splits)

lemma add_loop_ksp:
  assumes "fold_err (add_patch ctx bs) ils s = Inr s'"
  shows "ksp_operators s' = ksp_operators s"
  using assms
proof (induction ils arbitrary: s)
  case Nil
  then show ?case by simp
next
  case (Cons il ils)
  from Cons.prems obtain s1 where
    s1: "add_patch ctx bs il s = Inr s1" and
    rest: "fold_err (add_patch ctx bs) ils s1 = Inr s'"
    by (auto simp: bind_err_Inr_iff)
  from Cons.IH [OF rest] add_patch_frame [OF s1] show ?case
    by simp
qed

lemma last_enumerate_py:
  assumes "xs \<noteq> []"
  shows "snd (last (enumerate_py xs)) = last xs"
proof -
  from assms have k: "length xs - 1 < length xs"
    by (cases xs) simp_all
  from assms have ne: "enumerate_py xs \<noteq> []"
    by (simp add: enumerate_py_def)
  have "last (enumerate_py xs) = enumerate_py xs ! (length xs - 1)"
    using ne by (simp add: last_conv_nth)
  also have "\<dots> = (length xs - 1, xs ! (length xs - 1))"
    by (rule nth_enumerate_py [OF k])
  finally show ?thesis
    using assms by (simp add: last_conv_nth)
qed

lemma PatchPC_apply_ksp:
  assumes "PatchPC_apply ksp mc globals ctx x y = Inr s"
      and "matrices mc globals ctx = Inr mats"
  shows "ksp_operators s = (if mats = [] then None else Some (last mats))"
proof -
  from assms obtain s1 where
    l1: "fold_err (solve_patch ksp ctx (dim (self_V ctx))) (enumerate_py mats)
           \<lparr>vec_x = x, vec_y = replicate (length y) 0, tmp_ys = [], ksp_operators = None\<rparr> = Inr s1" and
    l2: "fold_err (add_patch ctx (dim (self_V ctx))) (enumerate_py (tmp_ys s1)) s1 = Inr s"
    by (auto simp: PatchPC_apply_def apply_loops_def Let_def bind_err_Inr_iff)
  have e: "enumerate_py mats = [] \<longleftrightarrow> mats = []"
    by (simp add: enumerate_py_def)
  from solve_loop_ksp [OF l1] add_loop_ksp [OF l2] show ?thesis
    by (simp add: e last_enumerate_py)
qed

section \<open>Patches with every local dof boundary-fixed\<close>

lemma concat_replicate_upt:
  "concat (map (\<lambda>j. replicate bs z) [0..<n]) = replicate (n * bs) z"
  by (induction n) (simp_all add: replicate_add [symmetric] add.commute)

lemma local_rhs_all_bc:
  assumes "\<forall>j<length pd. j \<in> set bc"
  shows "local_rhs bs x pd bc = replicate (length pd * bs) 0"
proof -
  have "map (\<lambda>j. if j \<in> set bc then replicate bs 0 else take bs (drop (pd ! j * bs) x))
            [0..<length pd]
      = map (\<lambda>j. replicate bs 0) [0..<length pd]"
    using assms by (intro map_cong) auto
  then show ?thesis
    by (simp only: local_rhs_def concat_replicate_upt)
qed

lemma matvec_identity:
  fixes z :: "'a::semiring_1 list"
  assumes id: "\<forall>i<nrows M. \<forall>j<ncols M. entry M i j = (if i = j then 1 else 0)"
      and sq: "ncols M = nrows M" and lz: "length z = nrows M"
  shows "matvec M z = z"
proof (rule nth_equalityI)
  show "length (matvec M z) = length z"
    by (simp add: lz)
next
  fix i assume "i < length (matvec M z)"
  then have i: "i < nrows M" by simp
  have "matvec M z ! i = (\<Sum>j\<in>{0..<ncols M}. entry M i j * z ! j)"
    using i by (simp add: matvec_def interv_sum_list_conv_sum_set_nat)
  also have "\<dots> = (\<Sum>j\<in>{0..<ncols M}. if i = j then z ! j else 0)"
  proof (rule sum.cong)
    fix j assume "j \<in> {0..<ncols M}"
    then have "entry M i j = (if i = j then 1 else 0)"
      using id i by simp
    then show "entry M i j * z ! j = (if i = j then z ! j else 0)"
      by simp
  qed simp
  also have "\<dots> = z ! i"
    using i sq by (simp add: sum.delta)
  finally show "matvec M z ! i = z ! i" .
qed

lemma scatter_term_zero:
  assumes "0 < bs"
  shows "scatter_term bs pd (replicate (length pd * bs) 0) k = (0::'a::comm_monoid_add)"
proof -
  have "(if pd ! j = k div bs then replicate (length pd * bs) (0::'a) ! (j * bs + k mod bs) else 0) = 0"
    if "j \<in> set [0..<length pd]" for j
  proof -
    from that have "j < length pd" by simp
    with assms have "j * bs + k mod bs < length pd * bs"
      using dstack_index_less [of j "length pd" "k mod bs" bs] by (simp add: mult.commute)
    then show ?thesis by simp
  qed
  then have "map (\<lambda>j. if pd ! j = k div bs then replicate (length pd * bs) (0::'a) ! (j * bs + k mod bs) else 0)
               [0..<length pd] = map (\<lambda>j. 0) [0..<length pd]"
    by (intro map_cong) auto
  then have "scatter_term bs pd (replicate (length pd * bs) 0) k
      = sum_list (map (\<lambda>j. (0::'a)) [0..<length pd])"
    by (simp only: scatter_term_def)
  then show ?thesis
    by simp
qed

lemma smoother_without:
  assumes k: "k < length ps" and z: "\<forall>e. patch_correction ksp bs x (ps ! k) e = 0"
  shows "smoother ksp bs x ps n = smoother ksp bs x (take k ps @ drop (Suc k) ps) n"
proof -
  have "(\<Sum>P\<leftarrow>ps. patch_correction ksp bs x P e)
      = (\<Sum>P\<leftarrow>take k ps @ drop (Suc k) ps. patch_correction ksp bs x P e)" for e
  proof -
    have "(\<Sum>P\<leftarrow>ps. patch_correction ksp bs x P e)
        = (\<Sum>P\<leftarrow>take k ps @ ps ! k # drop (Suc k) ps. patch_correction ksp bs x P e)"
      using id_take_nth_drop [OF k] by simp
    also have "\<dots> = (\<Sum>P\<leftarrow>take k ps @ drop (Suc k) ps. patch_correction ksp bs x P e)"
      using z by simp
    finally show ?thesis .
  qed
  then show ?thesis
    by (simp only: smoother_def)
qed

lemma identity_of_degenerate:
  assumes pm: "patch_matrix mc dm ctx k = Inr M"
      and bc: "patch_slice (bc_patches ctx) k = Inr bc"
      and n: "nrows M = q * dm" and dm: "0 < dm"
      and deg: "\<forall>j<q. j \<in> set bc"
  shows "\<forall>i<nrows M. \<forall>j. entry M i j = (if i = j then 1 else 0)"
proof (intro allI impI)
  fix i j assume i: "i < nrows M"
  from patch_matrix_Inr [OF pm] bc have
    rows: "\<forall>r\<in>set bc. \<forall>c<dm. \<forall>j. entry M (dm * r + c) j = (if j = dm * r + c then 1 else 0)"
    by auto
  from i n dm have "i div dm < q"
    by (simp add: less_mult_imp_div_less)
  with deg have "i div dm \<in> set bc" by blast
  moreover from dm have "i mod dm < dm" by simp
  ultimately have "entry M (dm * (i div dm) + i mod dm) j
      = (if j = dm * (i div dm) + i mod dm then 1 else 0)"
    using rows by blast
  then show "entry M i j = (if i = j then 1 else 0)"
    by auto
qed

section \<open>The smoother on floating-point numbers\<close>

lemma bit_length_numeral [simp]:
  "bit_length (numeral k) = Suc (bit_length (numeral k div 2))"
  by (subst bit_length.simps) simp

lemma bit_length_0 [simp]: "bit_length 0 = 0"
  by (subst bit_length.simps) simp

lemma bit_length_1 [simp]: "bit_length (Suc 0) = 1"
  by (subst bit_length.simps) simp

lemma float64_01: "(0::float64) \<noteq> 1"
  by (simp add: zero_float64_def one_float64_def)

lemma well_formed_ctx_star: "well_formed ctx_star 4"
  by (simp add: well_formed_def ctx_star_def FunctionSpace_ex_def py_slice_def Let_def upt_rec)

lemma well_formed_ctx_star_perm: "well_formed ctx_star_perm 4"
  by (simp add: well_formed_def ctx_star_perm_def ctx_star_def FunctionSpace_ex_def py_slice_def
        Let_def upt_rec)

lemmas star_defs = ctx_star_def globals_star_def FunctionSpace_ex_def matrix_callable_swap_def
  form_on_def

lemma matrices_ctx_star:
  "matrices matrix_callable_swap globals_star ctx_star = Inr [swap_mat, swap_mat, swap_mat]"
  by (simp add: star_defs run_defs swap_mat_def fun_eq_iff)

lemma matrices_ctx_star_perm:
  "matrices matrix_callable_swap globals_star ctx_star_perm = Inr [swap_mat, swap_mat, swap_mat]"
  by (simp add: ctx_star_perm_def star_defs run_defs swap_mat_def fun_eq_iff)

lemma patches_ctx_star:
  "patches_of ctx_star [swap_mat, swap_mat, swap_mat]
     = [(swap_mat, [0, 1], []), (swap_mat, [0, 2], []), (swap_mat, [0, 3], [])]"
  by (simp add: patches_of_def ctx_star_def patch_slice_def index_def py_slice_def upt_rec)

lemma patches_ctx_star_perm:
  "patches_of ctx_star_perm [swap_mat, swap_mat, swap_mat]
     = [(swap_mat, [0, 3], []), (swap_mat, [0, 1], []), (swap_mat, [0, 2], [])]"
  by (simp add: patches_of_def ctx_star_perm_def ctx_star_def patch_slice_def index_def py_slice_def upt_rec)

lemma ksp_solve_perm_swap:
  "ksp_solve_perm swap_mat [b0, b1] [l0, l1] = [b1, b0]"
  by (simp add: ksp_solve_perm_def swap_mat_def upt_rec float64_01)

lemma swap_mat_sel [simp]: "nrows swap_mat = 2" "ncols swap_mat = 2"
  by (simp_all add: swap_mat_def)

lemma apply_star:
  "PatchPC_apply ksp_solve_perm matrix_callable_swap globals_star ctx_star x_star [0, 0, 0, 0]
     = Inr \<lparr>vec_x = x_star, vec_y = [Float64 1, Float64 0, Float64 0, Float64 0],
            tmp_ys = [[Float64 (2 ^ 60), Float64 0], [Float64 (- (2 ^ 60)), Float64 0],
                      [Float64 1, Float64 0]],
            ksp_operators = Some swap_mat\<rparr>"
  unfolding PatchPC_apply_def matrices_ctx_star
  by (simp add: apply_loops_def enumerate_py_def solve_patch_def
  add_patch_def build_rhs_def reshape_def take_rows_def broadcast_rows_def set_rows_zero_def
  assign_rows_def ctx_star_def FunctionSpace_ex_def x_star_def index_def patch_slice_def py_slice_def
    Let_def upt_rec replicate_2 ksp_solve_perm_swap zero_float64_def round53_def)

lemma apply_star_perm:
  "PatchPC_apply ksp_solve_perm matrix_callable_swap globals_star ctx_star_perm x_star [0, 0, 0, 0]
     = Inr \<lparr>vec_x = x_star, vec_y = [Float64 0, Float64 0, Float64 0, Float64 0],
            tmp_ys = [[Float64 1, Float64 0], [Float64 (2 ^ 60), Float64 0],
                      [Float64 (- (2 ^ 60)), Float64 0]],
            ksp_operators = Some swap_mat\<rparr>"
  unfolding PatchPC_apply_def matrices_ctx_star_perm
  by (simp add: apply_loops_def enumerate_py_def solve_patch_def
  add_patch_def build_rhs_def reshape_def take_rows_def broadcast_rows_def set_rows_zero_def
  assign_rows_def ctx_star_perm_def ctx_star_def FunctionSpace_ex_def x_star_def index_def patch_slice_def py_slice_def
    Let_def upt_rec replicate_2 ksp_solve_perm_swap zero_float64_def round53_def)

section \<open>Theorems about firedrake/halo.py\<close>

text \<open>
  Claim C10.  Whenever \<^verbatim>\<open>Halo.__init__\<close> returns, the property
  \<^verbatim>\<open>global_to_petsc_numbering\<close> yields the array computed by \<^verbatim>\<open>make_global_numbering\<close>
  from the local and the global section, and this value is not \<^verbatim>\<open>None\<close>, whatever the
  size of the communicator (size 1 included: the \<^verbatim>\<open>None\<close> stored by that branch is
  overwritten).  Construction returns exactly when the star forest has type \<^verbatim>\<open>basic\<close>.
\<close>

theorem Halo_numbering_never_None:
  "(Halo_init sfo n mgn d = Inr self \<longrightarrow>
      global_to_petsc_numbering self =
        Inr (PyArray (mgn (getDefaultSection d) (getDefaultGlobalSection d)))
      \<and> global_to_petsc_numbering self \<noteq> Inr PyNone)
   \<and> ((\<exists>self'. Halo_init sfo n mgn d = Inr self') \<longleftrightarrow> sf_type (sfo (getDefaultSF d)) = ''basic'')"
  by (auto simp: Halo_init_def global_to_petsc_numbering_def Let_def split: if_splits)

theorem Halo_numbering_never_None_witness:
  "global_to_petsc_numbering
     (projr (Halo_init (\<lambda>s. s) 1 (\<lambda>l g. [l, g])
        \<lparr>getDefaultSection = 3, getDefaultGlobalSection = 7,
         getDefaultSF = \<lparr>sf_type = ''basic'', sf_comm_size = 1\<rparr>\<rparr>))
     = Inr (PyArray [3, 7])"
proof -
  let ?d = "\<lparr>getDefaultSection = 3::int, getDefaultGlobalSection = 7,
         getDefaultSF = \<lparr>sf_type = ''basic'', sf_comm_size = 1\<rparr>\<rparr>"
  have ok: "Halo_init (\<lambda>s. s) 1 (\<lambda>l g. [l, g]) ?d
      = Inr (projr (Halo_init (\<lambda>s. s) 1 (\<lambda>l g. [l, g]) ?d))"
    by (simp add: Halo_init_def)
  show ?thesis
    using Halo_numbering_never_None [of "\<lambda>s. s" 1 "\<lambda>l g. [l, g]" ?d
        "projr (Halo_init (\<lambda>s. s) 1 (\<lambda>l g. [l, g]) ?d)"] ok
    by simp
qed

section \<open>Theorems about SubspaceCorrectionPrec.__init__\<close>

text \<open>
  Claim C7.  When the form's test and trial functions live on one space \<open>V\<close> whose rank is
  2 or more (a tensor-valued space), the constructor raises at the rank check, whatever
  the boundary conditions and the patch builders are: the error is Python's
  \<^verbatim>\<open>NotImplementedError\<close>, the exception by which the code signals the unsupported
  configuration.  With such a rank the constructor raises in every case (when the two
  spaces differ, the earlier assertion does).  Whenever the constructor returns, the rank
  of \<open>V\<close> is 0 or 1 and the coarse space is the degree-1 \<^verbatim>\<open>CG\<close> space built for that rank.
\<close>

theorem init_rejects_tensor_spaces:
  "(2 \<le> rank (test_space a) \<and> test_space a = trial_space a \<longrightarrow>
      SubspaceCorrectionPrec_init FS VFS nodes gcfp gdp a arg = Inl NotImplementedError)
   \<and> (2 \<le> rank (test_space a) \<longrightarrow>
      (\<exists>e. SubspaceCorrectionPrec_init FS VFS nodes gcfp gdp a arg = Inl e))
   \<and> (SubspaceCorrectionPrec_init FS VFS nodes gcfp gdp a arg = Inr self \<longrightarrow>
        self_V self = test_space a
        \<and> (rank (self_V self) = 0 \<and> self_P1 self = FS (ufl_domain a) ''CG'' 1
           \<or> rank (self_V self) = 1 \<and> shape (self_V self) = [shape (self_V self) ! 0]
             \<and> self_P1 self = VFS (ufl_domain a) ''CG'' 1 (shape (self_V self) ! 0)))"
proof -
  have tensor: "coarse_space FS VFS (ufl_domain a) (test_space a) = Inl NotImplementedError"
    if "2 \<le> rank (test_space a)"
  proof -
    from that have "rank (test_space a) \<noteq> 0" "rank (test_space a) \<noteq> 1"
      by auto
    then show ?thesis
      by (simp add: coarse_space_def)
  qed
  have A: "SubspaceCorrectionPrec_init FS VFS nodes gcfp gdp a arg = Inl NotImplementedError"
    if h: "2 \<le> rank (test_space a) \<and> test_space a = trial_space a"
  proof -
    from h have r: "2 \<le> rank (test_space a)" and eq: "test_space a = trial_space a"
      by blast+
    have "coarse_space FS VFS (ufl_domain a) (test_space a) = Inl NotImplementedError"
      by (rule tensor [OF r])
    with eq show ?thesis
      by (simp add: SubspaceCorrectionPrec_init_def Let_def)
  qed
  have B: "\<exists>e. SubspaceCorrectionPrec_init FS VFS nodes gcfp gdp a arg = Inl e"
    if "2 \<le> rank (test_space a)"
    using tensor [OF that]
    by (cases "test_space a = trial_space a")
       (simp_all add: SubspaceCorrectionPrec_init_def Let_def)
  have C: "self_V self = test_space a
        \<and> (rank (self_V self) = 0 \<and> self_P1 self = FS (ufl_domain a) ''CG'' 1
           \<or> rank (self_V self) = 1 \<and> shape (self_V self) = [shape (self_V self) ! 0]
             \<and> self_P1 self = VFS (ufl_domain a) ''CG'' 1 (shape (self_V self) ! 0))"
    if ok: "SubspaceCorrectionPrec_init FS VFS nodes gcfp gdp a arg = Inr self"
  proof -
    have one: "length xs = 1 \<Longrightarrow> xs = [xs ! 0]" for xs :: "nat list"
      by (cases xs) simp_all
    from ok obtain P1 where
      P1: "coarse_space FS VFS (ufl_domain a) (test_space a) = Inr P1" and
      V: "self_V self = test_space a" and P: "self_P1 self = P1"
      by (auto simp: SubspaceCorrectionPrec_init_def Let_def bind_err_Inr_iff case_prod_beta
               split: if_splits)
    from P1 have
      "rank (test_space a) = 0 \<and> P1 = FS (ufl_domain a) ''CG'' 1
       \<or> rank (test_space a) = 1 \<and> length (shape (test_space a)) = 1
         \<and> P1 = VFS (ufl_domain a) ''CG'' 1 (shape (test_space a) ! 0)"
      by (auto simp: coarse_space_def split: if_splits)
    then show ?thesis
      using V P one [of "shape (test_space a)"] by auto
  qed
  show ?thesis
    using A B C by blast
qed


theorem init_rejects_tensor_spaces_witness:
  "SubspaceCorrectionPrec_init FunctionSpace_ex VectorFunctionSpace_ex (\<lambda>b. [])
      (\<lambda>m. (no_patches, no_patches)) (\<lambda>m V bcs c f. (no_patches, no_patches, no_patches))
      (form_on (TensorFunctionSpace_ex ''pulley.msh'' ''CG'' 2)) BcsNone
     = Inl NotImplementedError
   \<and> self_P1 (projr (SubspaceCorrectionPrec_init FunctionSpace_ex VectorFunctionSpace_ex (\<lambda>b. [])
      (\<lambda>m. (no_patches, no_patches)) (\<lambda>m V bcs c f. (no_patches, no_patches, no_patches))
      (form_on (VectorFunctionSpace_ex ''pulley.msh'' ''CG'' 2 3)) BcsNone))
     = VectorFunctionSpace_ex ''pulley.msh'' ''CG'' 1 3"
proof -
  let ?T = "form_on (TensorFunctionSpace_ex ''pulley.msh'' ''CG'' 2)"
  let ?W = "form_on (VectorFunctionSpace_ex ''pulley.msh'' ''CG'' 2 3)"
  let ?init = "SubspaceCorrectionPrec_init FunctionSpace_ex VectorFunctionSpace_ex (\<lambda>b. [])
      (\<lambda>m. (no_patches, no_patches)) (\<lambda>m V bcs c f. (no_patches, no_patches, no_patches))"
  note inst = init_rejects_tensor_spaces [of _ FunctionSpace_ex VectorFunctionSpace_ex "\<lambda>b. []"
      "\<lambda>m. (no_patches, no_patches)" "\<lambda>m V bcs c f. (no_patches, no_patches, no_patches)"
      BcsNone]
  have "2 \<le> rank (test_space ?T) \<and> test_space ?T = trial_space ?T"
    by (simp add: form_on_def TensorFunctionSpace_ex_def)
  then have 1: "?init ?T BcsNone = Inl NotImplementedError"
    by (rule inst [THEN conjunct1, rule_format])
  have "?init ?W BcsNone = Inr (projr (?init ?W BcsNone))"
    by (simp add: SubspaceCorrectionPrec_init_def form_on_def VectorFunctionSpace_ex_def
          coarse_space_def bc_nodes_def Let_def)
  then have "self_V (projr (?init ?W BcsNone)) = test_space ?W
        \<and> (rank (self_V (projr (?init ?W BcsNone))) = 0
             \<and> self_P1 (projr (?init ?W BcsNone)) = FunctionSpace_ex (ufl_domain ?W) ''CG'' 1
           \<or> rank (self_V (projr (?init ?W BcsNone))) = 1
             \<and> shape (self_V (projr (?init ?W BcsNone))) = [shape (self_V (projr (?init ?W BcsNone))) ! 0]
             \<and> self_P1 (projr (?init ?W BcsNone))
                = VectorFunctionSpace_ex (ufl_domain ?W) ''CG'' 1 (shape (self_V (projr (?init ?W BcsNone))) ! 0))"
    by (rule inst [THEN conjunct2, THEN conjunct2, rule_format])
  then have 2: "self_P1 (projr (?init ?W BcsNone)) = VectorFunctionSpace_ex ''pulley.msh'' ''CG'' 1 3"
    by (auto simp: form_on_def VectorFunctionSpace_ex_def)
  from 1 2 show ?thesis
    by (rule conjI)
qed


section \<open>Theorems about SubspaceCorrectionPrec.matrices\<close>

text \<open>
  Claim C9.  \<^verbatim>\<open>matrices\<close> takes the block dimension from the module-level global \<^verbatim>\<open>V\<close>:
  without such a binding it raises \<^verbatim>\<open>NameError\<close>; its result does not depend on the
  instance's own space \<^verbatim>\<open>self.V\<close>; and with \<^verbatim>\<open>V\<close> bound to a space \<open>Vg\<close>, every patch
  matrix has the patch's number of dofs times \<open>cdim Vg\<close> rows and columns and the block
  size \<open>cdim Vg\<close>.
\<close>

theorem matrices_reads_module_global_V:
  "(globals ''V'' = None \<longrightarrow> matrices mc globals self = Inl NameError)
   \<and> matrices mc globals (self\<lparr>self_V := W\<rparr>) = matrices mc globals self
   \<and> (globals ''V'' = Some Vg \<and> matrices mc globals self = Inr mats \<longrightarrow>
        length mats = length (offset (dof_patches self)) - 1 \<and>
        (\<forall>i<length mats.
           nrows (mats ! i)
             = (offset (glob_patches self) ! (i + 1) - offset (glob_patches self) ! i) * cdim Vg
           \<and> ncols (mats ! i) = nrows (mats ! i)
           \<and> block_size (mats ! i) = cdim Vg))"
proof -
  have A: "matrices mc globals self = Inl NameError" if "globals ''V'' = None"
    using that by (simp add: matrices_def)
  have pw: "patch_matrix mc dm (self\<lparr>self_V := W\<rparr>) i = patch_matrix mc dm self i" for dm i
    by (simp add: patch_matrix_def Let_def cong: if_cong)
  have "patch_matrix mc dm (self\<lparr>self_V := W\<rparr>) = patch_matrix mc dm self" for dm
    by (rule ext) (rule pw)
  then have B: "matrices mc globals (self\<lparr>self_V := W\<rparr>) = matrices mc globals self"
    by (simp add: matrices_def Let_def split: option.split)
  have C: "length mats = length (offset (dof_patches self)) - 1 \<and>
        (\<forall>i<length mats.
           nrows (mats ! i)
             = (offset (glob_patches self) ! (i + 1) - offset (glob_patches self) ! i) * cdim Vg
           \<and> ncols (mats ! i) = nrows (mats ! i)
           \<and> block_size (mats ! i) = cdim Vg)"
    if V: "globals ''V'' = Some Vg" and ok: "matrices mc globals self = Inr mats"
  proof -
    from V ok have len: "length mats = length (offset (dof_patches self)) - 1"
      and each: "\<forall>k<length mats. patch_matrix mc (cdim Vg) self k = Inr (mats ! k)"
      by (auto simp: matrices_def map_err_Inr_iff)
    show ?thesis
      using len each patch_matrix_Inr [of mc "cdim Vg" self] by auto
  qed
  show ?thesis
    using A B C by blast
qed


theorem matrices_reads_module_global_V_witness:
  "matrices matrix_callable_ex Map.empty ctx_ex = Inl NameError
   \<and> dim (self_V ctx_ex) = 2
   \<and> nrows (projr (matrices matrix_callable_ex globals_unrelated ctx_ex) ! 0) = 6
   \<and> block_size (projr (matrices matrix_callable_ex globals_unrelated ctx_ex) ! 0) = 3"
proof -
  let ?m = "matrices matrix_callable_ex globals_unrelated ctx_ex"
  let ?V = "VectorFunctionSpace_ex ''pulley.msh'' ''CG'' 2 3"
  have 1: "matrices matrix_callable_ex Map.empty ctx_ex = Inl NameError"
    by (rule matrices_reads_module_global_V [THEN conjunct1, rule_format]) simp
  have ok: "globals_unrelated ''V'' = Some ?V \<and> ?m = Inr (projr ?m)"
    by (simp add: globals_unrelated_def ex_defs run_defs)
  note * = matrices_reads_module_global_V [of globals_unrelated matrix_callable_ex ctx_ex _ ?V "projr ?m",
      THEN conjunct2, THEN conjunct2, rule_format, OF ok]
  from * have len: "length (projr ?m) = 3"
    by (simp add: ctx_ex_def)
  from * len have "nrows (projr ?m ! 0) = (offset (glob_patches ctx_ex) ! (0 + 1) - offset (glob_patches ctx_ex) ! 0) * cdim ?V
     \<and> block_size (projr ?m ! 0) = cdim ?V"
    by simp
  then have 2: "nrows (projr ?m ! 0) = 6 \<and> block_size (projr ?m ! 0) = 3"
    by (simp add: ctx_ex_def VectorFunctionSpace_ex_def)
  have 3: "dim (self_V ctx_ex) = 2"
    by (simp add: ctx_ex_def VectorFunctionSpace_ex_def)
  from 1 2 3 show ?thesis
    by blast
qed


text \<open>
  Claim C3.  Let \<^verbatim>\<open>matrices\<close> return \<open>mats\<close> with the module's \<^verbatim>\<open>V\<close> bound to \<open>Vg\<close>, and
  let \<open>r\<close> be a boundary-fixed local dof of patch \<open>i\<close>.  For every component \<open>c\<close> of the
  block dimension \<open>cdim Vg\<close>, the index \<open>cdim Vg * r + c\<close> is a row of the patch matrix,
  and its row and its column are zero except for the diagonal entry, which is 1.  And
  whenever the body of the first loop of \<^verbatim>\<open>PatchPC.apply\<close> runs for patch \<open>i\<close> with block
  size \<open>bsize\<close>, the right-hand side \<open>b\<close> handed to the solver has the size of the matrix
  and is zero at \<open>bsize * r + c\<close> for every component \<open>c\<close> of \<open>bsize\<close>.
\<close>

theorem boundary_dofs_eliminated:
  assumes "globals ''V'' = Some Vg"
      and "matrices mc globals self = Inr mats"
      and "i < length mats"
      and "patch_slice (bc_patches self) i = Inr bc_dofs"
      and "r \<in> set bc_dofs"
  shows "(\<forall>c<cdim Vg. cdim Vg * r + c < nrows (mats ! i)
            \<and> (\<forall>j. entry (mats ! i) (cdim Vg * r + c) j = (if j = cdim Vg * r + c then 1 else 0)
                 \<and> entry (mats ! i) j (cdim Vg * r + c) = (if j = cdim Vg * r + c then 1 else 0)))
       \<and> (\<forall>s s'. solve_patch ksp self bsize (i, mats ! i) s = Inr s' \<longrightarrow>
            (\<exists>b. tmp_ys s' = tmp_ys s @ [ksp (mats ! i) b (replicate (ncols (mats ! i)) 0)]
               \<and> length b = nrows (mats ! i)
               \<and> (\<forall>c<bsize. bsize * r + c < length b \<and> b ! (bsize * r + c) = 0)))"
proof (intro conjI allI impI)
  fix c assume c: "c < cdim Vg"
  from assms(1-3) have "patch_matrix mc (cdim Vg) self i = Inr (mats ! i)"
    by (auto simp: matrices_def map_err_Inr_iff)
  from patch_matrix_Inr [OF this] assms(4,5) c
  show "cdim Vg * r + c < nrows (mats ! i)"
    and "entry (mats ! i) (cdim Vg * r + c) j = (if j = cdim Vg * r + c then 1 else 0)"
    and "entry (mats ! i) j (cdim Vg * r + c) = (if j = cdim Vg * r + c then 1 else 0)" for j
    by auto
next
  fix s s' assume "solve_patch ksp self bsize (i, mats ! i) s = Inr s'"
  from solve_patch_Inr [OF this] assms(4) obtain pd b where
    b: "build_rhs bsize (vec_x s) (mats ! i) pd bc_dofs = Inr b" and
    s': "s' = s\<lparr>tmp_ys := tmp_ys s @ [ksp (mats ! i) b (replicate (ncols (mats ! i)) 0)],
               ksp_operators := Some (mats ! i)\<rparr>"
    by auto
  from build_rhs_Inr [OF b] assms(5) have lb: "length b = nrows (mats ! i)"
    and r: "r < nrows (mats ! i) div bsize" and z: "\<forall>c<bsize. b ! (r * bsize + c) = 0"
    by blast+
  have "bsize * r + c < length b \<and> b ! (bsize * r + c) = 0" if "c < bsize" for c
    using block_index_less [OF r that] z that lb by (simp add: mult.commute)
  with s' lb
  show "\<exists>b. tmp_ys s' = tmp_ys s @ [ksp (mats ! i) b (replicate (ncols (mats ! i)) 0)]
               \<and> length b = nrows (mats ! i)
               \<and> (\<forall>c<bsize. bsize * r + c < length b \<and> b ! (bsize * r + c) = 0)"
    by auto
qed


theorem boundary_dofs_eliminated_witness:
  "entry (projr (matrices matrix_callable_ex globals_ex ctx_ex) ! 0) 1 1 = 1
   \<and> entry (projr (matrices matrix_callable_ex globals_ex ctx_ex) ! 0) 1 3 = 0
   \<and> entry (projr (matrices matrix_callable_ex globals_ex ctx_ex) ! 0) 3 1 = 0
   \<and> (\<exists>b. tmp_ys (projr (solve_patch ksp_solve_ex ctx_ex 2
                 (0, projr (matrices matrix_callable_ex globals_ex ctx_ex) ! 0) s0_ex))
            = [ksp_solve_ex (projr (matrices matrix_callable_ex globals_ex ctx_ex) ! 0) b [0, 0, 0, 0]]
          \<and> length b = 4 \<and> b ! 0 = 0 \<and> b ! 1 = 0)"
proof -
  let ?m = "matrices matrix_callable_ex globals_ex ctx_ex"
  let ?V = "VectorFunctionSpace_ex ''interval'' ''CG'' 2 2"
  let ?s = "solve_patch ksp_solve_ex ctx_ex 2 (0, projr ?m ! 0) s0_ex"
  have h1: "globals_ex ''V'' = Some ?V"
    by (simp add: globals_ex_def)
  have h2: "?m = Inr (projr ?m)"
    by (simp add: ex_defs run_defs)
  have h3: "0 < length (projr ?m)"
    by (simp add: ex_defs run_defs)
  have h4: "patch_slice (bc_patches ctx_ex) 0 = Inr [0]"
    by (simp add: ex_defs run_defs)
  have h5: "(0::nat) \<in> set [0]"
    by simp
  note T = boundary_dofs_eliminated [where ksp = ksp_solve_ex and bsize = 2, OF h1 h2 h3 h4 h5]
  have c: "cdim ?V = 2" "nrows (projr ?m ! 0) = 4" "ncols (projr ?m ! 0) = 4"
    by (simp_all add: ex_defs run_defs)
  from T [THEN conjunct1, rule_format, of 1] c
  have e: "entry (projr ?m ! 0) 1 1 = 1 \<and> entry (projr ?m ! 0) 1 3 = 0 \<and> entry (projr ?m ! 0) 3 1 = 0"
    by simp
  have ok: "?s = Inr (projr ?s)"
    by (simp add: ex_defs run_defs s0_ex_def solve_patch_def build_rhs_def reshape_def
          take_rows_def broadcast_rows_def set_rows_zero_def)
  from T [THEN conjunct2, rule_format, OF ok] obtain b where
    b: "tmp_ys (projr ?s) = tmp_ys s0_ex @ [ksp_solve_ex (projr ?m ! 0) b (replicate (ncols (projr ?m ! 0)) 0)]"
       "length b = nrows (projr ?m ! 0)"
       "\<forall>c<2. 2 * 0 + c < length b \<and> b ! (2 * 0 + c) = 0"
    by blast
  from b(3) have "b ! 0 = 0 \<and> b ! 1 = 0"
    by simp
  with b(1,2) c have "tmp_ys (projr ?s) = [ksp_solve_ex (projr ?m ! 0) b [0, 0, 0, 0]]
          \<and> length b = 4 \<and> b ! 0 = 0 \<and> b ! 1 = 0"
    by (simp add: s0_ex_def numeral_eq_Suc)
  with e show ?thesis
    by blast
qed


section \<open>Theorems about P1PC\<close>

text \<open>
  Claim C2.  Write \<open>T\<close> for the transpose of the assembled transfer matrix, the map from the
  coarse space to the space of \<open>V\<close>.  Whenever \<^verbatim>\<open>P1PC.apply\<close> returns, its output is
  \<open>T\<close> applied to the result of the inner preconditioner, run with the operator
  \<^verbatim>\<open>ctx.P1_op\<close> on \<open>T\<^sup>T x\<close> (the restriction of \<open>x\<close>) from a zeroed output vector, and has
  the length of \<open>y\<close>.  The call returns exactly when \<open>x\<close> and \<open>y\<close> have as many entries as \<open>V\<close>
  has dofs and the inner preconditioner returns a coarse vector.  The operator
  \<^verbatim>\<open>ctx.P1_op\<close> is assembled from the form with both arguments in the coarse space, under
  the boundary conditions of the problem with their data interpolated into the coarse
  space.
\<close>

theorem coarse_correction_apply:
  "(P1PC_apply pc (P1PC_setUp transfer_op ctx) x y = Inr (self', y') \<longrightarrow>
      (let T = transpose_mat (transfer_op ctx)
       in y' = matvec T (pc (P1_op ctx) (matvec (transpose_mat T) x)
                           (replicate (ncols T) 0)))
      \<and> length y' = length y)
   \<and> ((\<exists>r. P1PC_apply pc (P1PC_setUp transfer_op ctx) x y = Inr r) \<longleftrightarrow>
        length x = ncols (transfer_op ctx) \<and> length y = ncols (transfer_op ctx)
        \<and> length (pc (P1_op ctx) (matvec (transfer_op ctx) x)
                     (replicate (nrows (transfer_op ctx)) 0)) = nrows (transfer_op ctx))
   \<and> (\<forall>F B. P1_op ctx = Assemble F B \<longrightarrow>
        ufl_domain F = ufl_domain (self_a ctx) \<and> integrand F = integrand (self_a ctx)
        \<and> test_space F = self_P1 ctx \<and> trial_space F = self_P1 ctx
        \<and> B = map (\<lambda>b. DirichletBC (self_P1 ctx) (Interpolate (self_P1 ctx) (function_arg b))
                        (sub_domain b) (bc_method b)) (self_bcs ctx))"
proof -
  have A: "(let T = transpose_mat (transfer_op ctx)
       in y' = matvec T (pc (P1_op ctx) (matvec (transpose_mat T) x)
                           (replicate (ncols T) 0)))
      \<and> length y' = length y"
    if "P1PC_apply pc (P1PC_setUp transfer_op ctx) x y = Inr (self', y')"
  proof -
    from that have y': "y' = matvec (transpose_mat (transfer_op ctx))
              (pc (P1_op ctx) (matvec (transfer_op ctx) x) (replicate (nrows (transfer_op ctx)) 0))"
      and ly: "length y = ncols (transfer_op ctx)"
      by (simp_all add: P1PC_apply_Inr_iff)
    have n: "ncols (transpose_mat (transfer_op ctx)) = nrows (transfer_op ctx)"
      "nrows (transpose_mat (transfer_op ctx)) = ncols (transfer_op ctx)"
      by (simp_all add: transpose_mat_def)
    from y' ly show ?thesis
      by (simp add: Let_def transpose_mat_twice n)
  qed
  have B: "(\<exists>r. P1PC_apply pc (P1PC_setUp transfer_op ctx) x y = Inr r) \<longleftrightarrow>
        length x = ncols (transfer_op ctx) \<and> length y = ncols (transfer_op ctx)
        \<and> length (pc (P1_op ctx) (matvec (transfer_op ctx) x)
                     (replicate (nrows (transfer_op ctx)) 0)) = nrows (transfer_op ctx)"
    by (simp add: P1PC_apply_Inr_iff)
  have C: "ufl_domain F = ufl_domain (self_a ctx) \<and> integrand F = integrand (self_a ctx)
        \<and> test_space F = self_P1 ctx \<and> trial_space F = self_P1 ctx
        \<and> B = map (\<lambda>b. DirichletBC (self_P1 ctx) (Interpolate (self_P1 ctx) (function_arg b))
                        (sub_domain b) (bc_method b)) (self_bcs ctx)"
    if "P1_op ctx = Assemble F B" for F B
    using that by (auto simp: P1_op_def P1_form_def P1_bcs_def)
  from A B C show ?thesis
    by blast
qed

theorem coarse_correction_apply_witness:
  "snd (projr (P1PC_apply pc_apply_ex (P1PC_setUp transfer_op_ex ctx_ex)
                 [1, 2, 3, 4, 5, 6] [9, 9, 9, 9, 9, 9]))
     = [5/4, 2, 9/4, 3, 13/4, 4]"
proof -
  let ?r = "P1PC_apply pc_apply_ex (P1PC_setUp transfer_op_ex ctx_ex)
                 [1, 2, 3, 4, 5, 6] [9, 9, 9, 9, 9, 9]"
  have "length [1, 2, 3, 4, 5, 6 :: real] = ncols (transfer_op_ex ctx_ex)
        \<and> length [9, 9, 9, 9, 9, 9 :: real] = ncols (transfer_op_ex ctx_ex)
        \<and> length (pc_apply_ex (P1_op ctx_ex) (matvec (transfer_op_ex ctx_ex) [1, 2, 3, 4, 5, 6])
                     (replicate (nrows (transfer_op_ex ctx_ex)) 0)) = nrows (transfer_op_ex ctx_ex)"
    by (simp add: transfer_op_ex_def pc_apply_ex_def)
  then have "\<exists>r. ?r = Inr r"
    by (rule coarse_correction_apply [THEN conjunct2, THEN conjunct1, THEN iffD2])
  then have "?r = Inr (fst (projr ?r), snd (projr ?r))"
    by auto
  from coarse_correction_apply [THEN conjunct1, rule_format, OF this]
  have "snd (projr ?r) = matvec (transpose_mat (transfer_op_ex ctx_ex))
      (pc_apply_ex (P1_op ctx_ex) (matvec (transpose_mat (transpose_mat (transfer_op_ex ctx_ex))) [1, 2, 3, 4, 5, 6])
         (replicate (ncols (transpose_mat (transfer_op_ex ctx_ex))) 0))"
    by (simp add: Let_def)
  also have "\<dots> = [5/4, 2, 9/4, 3, 13/4, 4]"
    by (simp add: matvec_def transpose_mat_def transfer_op_ex_def pc_apply_ex_def upt_rec)
  finally show ?thesis .
qed



text \<open>
  Claim C4.  Let \<^verbatim>\<open>P1PC.setUp\<close> return for a context whose property \<^verbatim>\<open>transfer_op\<close> has not
  been read.  Then exactly one kernel has been run by \<^verbatim>\<open>op2.par_loop\<close>, the restriction
  kernel \<^verbatim>\<open>Pk_P1_mapper\<close> with the weights \<^verbatim>\<open>matrix\<close> (the prolongation kernel is not run), and
  the matrix \<open>R\<close> it assembled is both stored by the property and held by the \<^verbatim>\<open>P1PC\<close>.  Every
  later access to the property returns the stored matrix and runs nothing, so a second
  \<^verbatim>\<open>setUp\<close> gives the same object in the same state.  Whenever \<^verbatim>\<open>P1PC.apply\<close> returns, it has
  restricted \<open>x\<close> with \<^verbatim>\<open>mult\<close> of \<open>R\<close> into \<^verbatim>\<open>work1\<close>, run the inner preconditioner from
  \<^verbatim>\<open>work1\<close> into \<^verbatim>\<open>work2\<close>, and prolonged \<^verbatim>\<open>work2\<close> with \<^verbatim>\<open>multTranspose\<close> of the same \<open>R\<close>
  into \<open>y\<close>, which is the product with the transpose of \<open>R\<close>; and it leaves \<open>R\<close> in place.
  That transpose \<open>P\<close> has the sizes of \<open>R\<close> exchanged, the entry of \<open>P\<close> at \<open>(j, i)\<close> is the
  entry of \<open>R\<close> at \<open>(i, j)\<close>, the sparsity pattern of \<open>P\<close> is that of \<open>R\<close> with rows and
  columns exchanged, and restriction is the dual of prolongation: pairing the
  restriction of \<open>x\<close> with a coarse \<open>w\<close> gives the pairing of \<open>x\<close> with the prolongation of
  \<open>w\<close>.
\<close>

theorem restriction_is_transpose_of_prolongation:
  fixes op2 :: "'a::comm_semiring_0 pyop2"
  assumes "transfer_op_cache st0 = None"
      and "P1PC_setUp_cached op2 ctx st0 = Inr (s, st1)"
  shows "(\<exists>k. transfer_kernel op2 ctx True = Inr k
            \<and> kernel_name k = ''Pk_P1_mapper''
            \<and> weights k = fiat_matrix op2 (self_V ctx) (self_P1 ctx)
            \<and> par_loops st1 = par_loops st0 @ [k])
       \<and> transfer_op_cache st1 = Some (transfer s)
       \<and> (\<forall>st T. transfer_op_cache st = Some T \<longrightarrow>
             SubspaceCorrectionPrec_transfer_op op2 ctx st = Inr (T, st))
       \<and> P1PC_setUp_cached op2 ctx st1 = Inr (s, st1)
       \<and> (\<forall>pc x y s' y'. P1PC_apply pc s x y = Inr (s', y') \<longrightarrow>
             mult (transfer s) x (replicate (nrows (transfer s)) 0) = Inr (work1 s')
           \<and> work2 s' = pc (pc_operator s) (work1 s') (replicate (nrows (transfer s)) 0)
           \<and> multTranspose (transfer s) (work2 s') (replicate (length y) 0) = Inr y'
           \<and> y' = matvec (transpose_mat (transfer s)) (work2 s')
           \<and> transfer s' = transfer s)
       \<and> (let R = transfer s; P = transpose_mat R
          in (\<forall>w y. multTranspose R w y = mult P w y)
           \<and> nrows P = ncols R \<and> ncols P = nrows R
           \<and> (\<forall>i j. entry P j i = entry R i j)
           \<and> set (pattern P) = (\<lambda>(i, j). (j, i)) ` set (pattern R)
           \<and> (\<forall>x w r p. mult R x (replicate (nrows R) 0) = Inr r
                        \<and> multTranspose R w (replicate (ncols R) 0) = Inr p
                  \<longrightarrow> dot r w = dot x p))"
proof -
  let ?R = "transfer s"
  from P1PC_setUp_cached_Inr [OF assms(2)] have
    T: "SubspaceCorrectionPrec_transfer_op op2 ctx st0 = Inr (?R, st1)" and
    s: "s = P1PC_setUp (\<lambda>self. ?R) ctx"
    by auto
  from transfer_op_fresh [OF assms(1) T] obtain k where
    k: "transfer_kernel op2 ctx True = Inr k" and
    st1: "st1 = st0\<lparr>transfer_op_cache := Some ?R, par_loops := par_loops st0 @ [k]\<rparr>"
    by blast
  have A: "\<exists>k. transfer_kernel op2 ctx True = Inr k
            \<and> kernel_name k = ''Pk_P1_mapper''
            \<and> weights k = fiat_matrix op2 (self_V ctx) (self_P1 ctx)
            \<and> par_loops st1 = par_loops st0 @ [k]"
    using k transfer_kernel_Inr [OF k] st1 by (intro exI [of _ k]) simp
  have B: "transfer_op_cache st1 = Some ?R"
    by (subst st1) simp
  have C: "\<forall>st T. transfer_op_cache st = Some T \<longrightarrow>
             SubspaceCorrectionPrec_transfer_op op2 ctx st = Inr (T, st)"
    by (simp add: transfer_op_cached)
  have D: "P1PC_setUp_cached op2 ctx st1 = Inr (s, st1)"
    using transfer_op_cached [OF B, of op2 ctx] s by (simp add: P1PC_setUp_cached_def)
  have w: "length (work1 s) = nrows ?R" "length (work2 s) = nrows ?R"
    by (subst s, simp add: P1PC_setUp_def Let_def)+
  have E: "\<forall>pc x y s' y'. P1PC_apply pc s x y = Inr (s', y') \<longrightarrow>
             mult ?R x (replicate (nrows ?R) 0) = Inr (work1 s')
           \<and> work2 s' = pc (pc_operator s) (work1 s') (replicate (nrows ?R) 0)
           \<and> multTranspose ?R (work2 s') (replicate (length y) 0) = Inr y'
           \<and> y' = matvec (transpose_mat ?R) (work2 s')
           \<and> transfer s' = ?R"
  proof (intro allI impI)
    fix pc x y s' y'
    assume a: "P1PC_apply pc s x y = Inr (s', y')"
    note st = P1PC_apply_steps [OF a, unfolded w]
    from st(3) have "y' = matvec (transpose_mat ?R) (work2 s')"
      by (simp add: multTranspose_Inr_iff)
    with st show "mult ?R x (replicate (nrows ?R) 0) = Inr (work1 s')
           \<and> work2 s' = pc (pc_operator s) (work1 s') (replicate (nrows ?R) 0)
           \<and> multTranspose ?R (work2 s') (replicate (length y) 0) = Inr y'
           \<and> y' = matvec (transpose_mat ?R) (work2 s')
           \<and> transfer s' = ?R"
      by (intro conjI)
  qed
  have 3: "multTranspose ?R w y = mult (transpose_mat ?R) w y" for w y
    by (rule multTranspose_eq_mult_transpose)
  have 4: "nrows (transpose_mat ?R) = ncols ?R" "ncols (transpose_mat ?R) = nrows ?R"
    "entry (transpose_mat ?R) j i = entry ?R i j" for i j
    by (simp_all add: transpose_mat_def)
  have 5: "set (pattern (transpose_mat ?R)) = (\<lambda>(i, j). (j, i)) ` set (pattern ?R)"
    by (rule set_pattern_transpose)
  have 6: "dot r w = dot x p"
    if "mult ?R x (replicate (nrows ?R) 0) = Inr r \<and> multTranspose ?R w (replicate (ncols ?R) 0) = Inr p"
    for x w r p
    using that dot_matvec_transpose [of x ?R w]
    by (simp add: mult_Inr_iff multTranspose_Inr_iff)
  have F: "let R = ?R; P = transpose_mat R
          in (\<forall>w y. multTranspose R w y = mult P w y)
           \<and> nrows P = ncols R \<and> ncols P = nrows R
           \<and> (\<forall>i j. entry P j i = entry R i j)
           \<and> set (pattern P) = (\<lambda>(i, j). (j, i)) ` set (pattern R)
           \<and> (\<forall>x w r p. mult R x (replicate (nrows R) 0) = Inr r
                        \<and> multTranspose R w (replicate (ncols R) 0) = Inr p
                  \<longrightarrow> dot r w = dot x p)"
    unfolding Let_def using 3 4 5 6 by blast
  show ?thesis
    by (intro conjI) (rule A B C D E F)+
qed

theorem restriction_is_transpose_of_prolongation_witness:
  "P1PC_setUp_cached pyop2_ex ctx_ex assembly_ex
     = Inr (P1PC_setUp transfer_op_ex ctx_ex,
            \<lparr>transfer_op_cache = Some (transfer_op_ex ctx_ex), par_loops = [kernel_ex]\<rparr>)
   \<and> P1PC_setUp_cached pyop2_ex ctx_ex
         \<lparr>transfer_op_cache = Some (transfer_op_ex ctx_ex), par_loops = [kernel_ex]\<rparr>
     = Inr (P1PC_setUp transfer_op_ex ctx_ex,
            \<lparr>transfer_op_cache = Some (transfer_op_ex ctx_ex), par_loops = [kernel_ex]\<rparr>)
   \<and> mult (transfer_op_ex ctx_ex) [1, 2, 3, 4, 5, 6] [0, 0, 0, 0] = Inr [5/2, 4, 13/2, 8]
   \<and> multTranspose (transfer_op_ex ctx_ex) [5/4, 2, 13/4, 4] [0, 0, 0, 0, 0, 0]
     = Inr [5/4, 2, 9/4, 3, 13/4, 4]
   \<and> P1PC_apply pc_apply_ex (P1PC_setUp transfer_op_ex ctx_ex) [1, 2, 3, 4, 5, 6] [9, 9, 9, 9, 9, 9]
     = Inr (P1PC_setUp transfer_op_ex ctx_ex\<lparr>work1 := [5/2, 4, 13/2, 8], work2 := [5/4, 2, 13/4, 4]\<rparr>,
            [5/4, 2, 9/4, 3, 13/4, 4])
   \<and> dot (projr (mult (transfer_op_ex ctx_ex) [1, 2, 3, 4, 5, 6] [0, 0, 0, 0])) [1, 0, 2, 0]
     = dot [1, 2, 3, 4, 5, 6]
         (projr (multTranspose (transfer_op_ex ctx_ex) [1, 0, 2, 0] [0, 0, 0, 0, 0, 0]))
   \<and> set (pattern (transpose_mat (transfer_op_ex ctx_ex)))
       = (\<lambda>(i, j). (j, i)) ` set (pattern (transfer_op_ex ctx_ex))"
proof -
  let ?R = "transfer_op_ex ctx_ex"
  let ?s = "P1PC_setUp transfer_op_ex ctx_ex"
  let ?st1 = "\<lparr>transfer_op_cache = Some ?R, par_loops = [kernel_ex]\<rparr>"
  let ?x = "[1, 2, 3, 4, 5, 6] :: real list" and ?y = "[9, 9, 9, 9, 9, 9] :: real list"
  let ?w1 = "[5/2, 4, 13/2, 8] :: real list" and ?w2 = "[5/4, 2, 13/4, 4] :: real list"
  let ?y' = "[5/4, 2, 9/4, 3, 13/4, 4] :: real list"
  let ?s' = "?s\<lparr>work1 := ?w1, work2 := ?w2\<rparr>"
  have c0: "transfer_op_cache assembly_ex = None"
    by (simp add: assembly_ex_def)
  have first: "P1PC_setUp_cached pyop2_ex ctx_ex assembly_ex = Inr (?s, ?st1)"
    by (simp add: P1PC_setUp_cached_def SubspaceCorrectionPrec_transfer_op_def transfer_kernel_def
          pyop2_ex_def assembly_ex_def kernel_ex_def ctx_ex_def VectorFunctionSpace_ex_def
          P1PC_setUp_def Let_def)
  note T = restriction_is_transpose_of_prolongation [where ?op2.0 = pyop2_ex and ctx = ctx_ex
      and ?st0.0 = assembly_ex and s = ?s and ?st1.0 = ?st1, OF c0 first]
  have R: "transfer ?s = ?R" and n: "nrows ?R = 4" "ncols ?R = 6"
    by (simp_all add: P1PC_setUp_def Let_def transfer_op_ex_def)
  have again: "P1PC_setUp_cached pyop2_ex ctx_ex ?st1 = Inr (?s, ?st1)"
    using T by blast
  have app: "P1PC_apply pc_apply_ex ?s ?x ?y = Inr (?s', ?y')"
    by (simp add: P1PC_apply_def P1PC_setUp_def Let_def mult_def multTranspose_def
          transfer_op_ex_def pc_apply_ex_def upt_rec)
  from T app have "mult (transfer ?s) ?x (replicate (nrows (transfer ?s)) 0) = Inr (work1 ?s')
      \<and> multTranspose (transfer ?s) (work2 ?s') (replicate (length ?y) 0) = Inr ?y'"
    by blast
  then have steps: "mult ?R ?x [0, 0, 0, 0] = Inr ?w1"
      "multTranspose ?R ?w2 [0, 0, 0, 0, 0, 0] = Inr ?y'"
    by (simp_all add: R n numeral_eq_Suc)
  let ?r = "mult ?R ?x [0, 0, 0, 0]"
  let ?p = "multTranspose ?R [1, 0, 2, 0] [0, 0, 0, 0, 0, 0]"
  have "mult ?R ?x (replicate (nrows ?R) 0) = Inr (projr ?r)
        \<and> multTranspose ?R [1, 0, 2, 0] (replicate (ncols ?R) 0) = Inr (projr ?p)"
    by (simp add: n mult_def multTranspose_def numeral_eq_Suc)
  with T [unfolded Let_def R] have 1: "dot (projr ?r) [1, 0, 2, 0] = dot ?x (projr ?p)"
    by blast
  from T [unfolded Let_def R]
  have 2: "set (pattern (transpose_mat ?R)) = (\<lambda>(i, j). (j, i)) ` set (pattern ?R)"
    by blast
  show ?thesis
    by (intro conjI) (rule first again steps app 1 2)+
qed


section \<open>Theorems about PatchPC\<close>

text \<open>
  Claim C1.  On well-formed patch data for a space with \<open>N\<close> nodes, with the module's \<^verbatim>\<open>V\<close>
  of the block size of \<^verbatim>\<open>ctx.V\<close>, vectors \<open>x\<close> and \<open>y\<close> of that space and a solver that fills
  the solution vector it is given, \<^verbatim>\<open>PatchPC.apply\<close> returns, and its output is the
  smoother described directly: starting from zero (the call gives the same result on a
  zeroed \<open>y\<close>), entry \<open>k\<close> of the output is the sum over all patches, and over the local
  dofs \<open>j\<close> of the patch that are the global dof of \<open>k\<close>, of the entry of the local
  solution at \<open>j\<close>; the local solution is the solver's result for the patch matrix and
  the local right-hand side, from a zeroed solution vector; and the local right-hand
  side holds at local dof \<open>j\<close> the residual at the global dof \<open>pd ! j\<close>, or zero when \<open>j\<close>
  is boundary-fixed.
\<close>

theorem patch_smoother_apply:
  fixes x :: "'a::{comm_monoid_add,one} list"
  assumes "well_formed ctx N"
      and "globals ''V'' = Some Vg"
      and "cdim Vg = dim (self_V ctx)"
      and "length x = N * dim (self_V ctx)"
      and "length y = N * dim (self_V ctx)"
      and "\<forall>m b l. length (ksp m b l) = length l"
  shows "\<exists>mats s'. matrices mc globals ctx = Inr mats
      \<and> PatchPC_apply ksp mc globals ctx x y = Inr s'
      \<and> PatchPC_apply ksp mc globals ctx x (replicate (length y) 0) = Inr s'
      \<and> vec_y s' = smoother ksp (dim (self_V ctx)) x (patches_of ctx mats) (length y)
      \<and> (\<forall>k<length y. vec_y s' ! k =
            (\<Sum>(m, pd, bc)\<leftarrow>patches_of ctx mats. \<Sum>j\<leftarrow>[0..<length pd].
               if pd ! j = k div dim (self_V ctx)
               then ksp m (local_rhs (dim (self_V ctx)) x pd bc) (replicate (ncols m) 0)
                      ! (j * dim (self_V ctx) + k mod dim (self_V ctx))
               else 0))
      \<and> (\<forall>(m, pd, bc)\<in>set (patches_of ctx mats). \<forall>j<length pd. \<forall>c<dim (self_V ctx).
            local_rhs (dim (self_V ctx)) x pd bc ! (j * dim (self_V ctx) + c)
              = (if j \<in> set bc then 0 else x ! (pd ! j * dim (self_V ctx) + c)))"
proof -
  let ?bs = "dim (self_V ctx)"
  from PatchPC_apply_total [where mc = mc and ksp = ksp and globals = globals and Vg = Vg
      and ctx = ctx and N = N and x = x and y = y, OF assms] obtain mats s' where
    mats: "matrices mc globals ctx = Inr mats" and
    lm: "length mats = length (offset (dof_patches ctx)) - 1" and
    app: "PatchPC_apply ksp mc globals ctx x y = Inr s'" and
    res: "vec_y s' = smoother ksp ?bs x (patches_of ctx mats) (length y)"
    by blast
  have zero: "PatchPC_apply ksp mc globals ctx x (replicate (length y) 0)
      = PatchPC_apply ksp mc globals ctx x y"
    by (simp add: PatchPC_apply_def)
  have bs: "0 < ?bs"
    using assms(1) by (simp add: well_formed_def Let_def)
  have pw: "vec_y s' ! k =
            (\<Sum>(m, pd, bc)\<leftarrow>patches_of ctx mats. \<Sum>j\<leftarrow>[0..<length pd].
               if pd ! j = k div ?bs
               then ksp m (local_rhs ?bs x pd bc) (replicate (ncols m) 0) ! (j * ?bs + k mod ?bs)
               else 0)" if "k < length y" for k
  proof -
    have "patch_correction ksp ?bs x P k = (case P of (m, pd, bc) \<Rightarrow> \<Sum>j\<leftarrow>[0..<length pd].
               if pd ! j = k div ?bs
               then ksp m (local_rhs ?bs x pd bc) (replicate (ncols m) 0) ! (j * ?bs + k mod ?bs)
               else 0)" for P
      by (simp add: patch_correction_def scatter_term_def split: prod.split)
    then show ?thesis
      using that by (simp add: res smoother_def)
  qed
  have rhs: "local_rhs ?bs x pd bc ! (j * ?bs + c) = (if j \<in> set bc then 0 else x ! (pd ! j * ?bs + c))"
    if P: "(m, pd, bc) \<in> set (patches_of ctx mats)" and j: "j < length pd" and c: "c < ?bs"
    for m pd bc j c
  proof -
    from patches_of_member [OF P] obtain i where i: "i < length mats"
      and pd: "pd = projr (patch_slice (glob_patches ctx) i)"
      by auto
    from well_formedD(7) [OF assms(1), of i] i lm have "\<forall>p\<in>set pd. p < N"
      by (auto simp: pd)
    with bs have "\<forall>p\<in>set pd. p < length x div ?bs"
      by (simp add: assms(4))
    from local_rhs_nth [OF bs this j c] show ?thesis .
  qed
  have zero': "PatchPC_apply ksp mc globals ctx x (replicate (length y) 0) = Inr s'"
    using zero app by simp
  have pw': "\<forall>k<length y. vec_y s' ! k =
            (\<Sum>(m, pd, bc)\<leftarrow>patches_of ctx mats. \<Sum>j\<leftarrow>[0..<length pd].
               if pd ! j = k div ?bs
               then ksp m (local_rhs ?bs x pd bc) (replicate (ncols m) 0) ! (j * ?bs + k mod ?bs)
               else 0)"
    using pw by blast
  have rhs': "\<forall>(m, pd, bc)\<in>set (patches_of ctx mats). \<forall>j<length pd. \<forall>c<?bs.
            local_rhs ?bs x pd bc ! (j * ?bs + c)
              = (if j \<in> set bc then 0 else x ! (pd ! j * ?bs + c))"
    using rhs by blast
  from mats app zero' res pw' rhs' show ?thesis
    by (rule_tac x = mats in exI, rule_tac x = s' in exI) (intro conjI; assumption)
qed

theorem patch_smoother_apply_witness:
  "PatchPC_apply ksp_solve_ex matrix_callable_ex globals_ex ctx_ex [1, 2, 3, 4, 5, 6] [9, 9, 9, 9, 9, 9]
     = Inr (projr (PatchPC_apply ksp_solve_ex matrix_callable_ex globals_ex ctx_ex
                     [1, 2, 3, 4, 5, 6] [9, 9, 9, 9, 9, 9]))
   \<and> vec_y (projr (PatchPC_apply ksp_solve_ex matrix_callable_ex globals_ex ctx_ex
                     [1, 2, 3, 4, 5, 6] [9, 9, 9, 9, 9, 9]))
     = smoother ksp_solve_ex 2 [1, 2, 3, 4, 5, 6]
         (patches_of ctx_ex (projr (matrices matrix_callable_ex globals_ex ctx_ex))) 6
   \<and> vec_y (projr (PatchPC_apply ksp_solve_ex matrix_callable_ex globals_ex ctx_ex
                     [1, 2, 3, 4, 5, 6] [9, 9, 9, 9, 9, 9]))
     = [0, 0, 3, 4, 0, 0]"
proof -
  let ?x = "[1, 2, 3, 4, 5, 6] :: real list" and ?y = "[9, 9, 9, 9, 9, 9] :: real list"
  let ?V = "VectorFunctionSpace_ex ''interval'' ''CG'' 2 2"
  let ?a = "PatchPC_apply ksp_solve_ex matrix_callable_ex globals_ex ctx_ex ?x ?y"
  have h: "globals_ex ''V'' = Some ?V" "cdim ?V = dim (self_V ctx_ex)"
    "length ?x = 3 * dim (self_V ctx_ex)" "length ?y = 3 * dim (self_V ctx_ex)"
    by (simp_all add: globals_ex_def ctx_ex_def VectorFunctionSpace_ex_def)
  from patch_smoother_apply [where mc = matrix_callable_ex and ksp = ksp_solve_ex
      and globals = globals_ex and Vg = ?V and ctx = ctx_ex and N = 3 and x = ?x and y = ?y,
      OF well_formed_ctx_ex h ksp_solve_ex_length]
  obtain mats s' where
    mats: "matrices matrix_callable_ex globals_ex ctx_ex = Inr mats" and
    app: "?a = Inr s'" and
    res: "vec_y s' = smoother ksp_solve_ex (dim (self_V ctx_ex)) ?x (patches_of ctx_ex mats) (length ?y)"
    by blast
  have d: "dim (self_V ctx_ex) = 2"
    by (simp add: ctx_ex_def VectorFunctionSpace_ex_def)
  from app have 1: "?a = Inr (projr ?a)"
    by simp
  from app mats res have 2: "vec_y (projr ?a) = smoother ksp_solve_ex 2 ?x
         (patches_of ctx_ex (projr (matrices matrix_callable_ex globals_ex ctx_ex))) 6"
    by (simp add: d eval_nat_numeral)
  have 3: "vec_y (projr ?a) = [0, 0, 3, 4, 0, 0]"
    by (simp add: apply_defs ex_defs run_defs replicate_2)
  from 1 2 3 show ?thesis
    by blast
qed


text \<open>
  Claim C8.  Take two well-formed contexts over the same space whose enumerations of
  patches (matrix, global dofs, boundary-fixed dofs) are permutations of each other, and
  scalars whose addition is associative and commutative (exact arithmetic).  Then
  \<^verbatim>\<open>PatchPC.apply\<close> returns on both, the residual \<open>x\<close> is unchanged at the end of both calls,
  and the two outputs \<open>y\<close> are equal; the shared solver \<^verbatim>\<open>self.ksp\<close> ends with the matrix
  of the patch enumerated last as its operator.  Every run of the body of the first loop
  (one patch solve) leaves \<open>x\<close> and \<open>y\<close> as they are, appends its own local solution to
  \<^verbatim>\<open>tmp_ys\<close>, and writes the shared solver, which it leaves with its own patch matrix as
  operator; its result does not depend on the operator it finds in the solver.  Every
  run of the body of the second loop leaves \<open>x\<close>, \<^verbatim>\<open>tmp_ys\<close> and the solver as they are.
\<close>

theorem patch_order_independence:
  fixes x :: "'a::{comm_monoid_add,one} list"
  assumes "well_formed ctx N" and "well_formed ctx' N"
      and "globals ''V'' = Some Vg" and "globals' ''V'' = Some Vg'"
      and "cdim Vg = dim (self_V ctx)" and "cdim Vg' = dim (self_V ctx')"
      and "dim (self_V ctx') = dim (self_V ctx)"
      and "length x = N * dim (self_V ctx)"
      and "length y = N * dim (self_V ctx)"
      and "\<forall>m b l. length (ksp m b l) = length l"
      and "matrices mc globals ctx = Inr mats"
      and "matrices mc' globals' ctx' = Inr mats'"
      and "mset (patches_of ctx mats) = mset (patches_of ctx' mats')"
  shows "(\<exists>s s'. PatchPC_apply ksp mc globals ctx x y = Inr s
            \<and> PatchPC_apply ksp mc' globals' ctx' x y = Inr s'
            \<and> vec_x s = x \<and> vec_x s' = x \<and> vec_y s = vec_y s'
            \<and> ksp_operators s = (if mats = [] then None else Some (last mats))
            \<and> ksp_operators s' = (if mats' = [] then None else Some (last mats')))
       \<and> (\<forall>bsize im t t'. solve_patch ksp ctx bsize im t = Inr t' \<longrightarrow>
             vec_x t' = vec_x t \<and> vec_y t' = vec_y t \<and> (\<exists>ly. tmp_ys t' = tmp_ys t @ [ly])
             \<and> ksp_operators t' = Some (snd im))
       \<and> (\<forall>bsize im (t :: 'a vecs) k.
             solve_patch ksp ctx bsize im (t\<lparr>ksp_operators := k\<rparr>) = solve_patch ksp ctx bsize im t)
       \<and> (\<forall>bsize il (t :: 'a vecs) t'. add_patch ctx bsize il t = Inr t' \<longrightarrow>
             vec_x t' = vec_x t \<and> tmp_ys t' = tmp_ys t \<and> ksp_operators t' = ksp_operators t)"
proof -
  from PatchPC_apply_total [where mc = mc and ksp = ksp and globals = globals and Vg = Vg
      and ctx = ctx and N = N and x = x and y = y, OF assms(1,3,5,8,9,10)] assms(11)
  obtain s where
    s: "PatchPC_apply ksp mc globals ctx x y = Inr s" "vec_x s = x"
       "vec_y s = smoother ksp (dim (self_V ctx)) x (patches_of ctx mats) (length y)"
    by auto
  from assms(7,8,9) have l': "length x = N * dim (self_V ctx')" "length y = N * dim (self_V ctx')"
    by simp_all
  from PatchPC_apply_total [where mc = mc' and ksp = ksp and globals = globals' and Vg = Vg'
      and ctx = ctx' and N = N and x = x and y = y, OF assms(2,4,6) l' assms(10)] assms(12)
  obtain s' where
    s': "PatchPC_apply ksp mc' globals' ctx' x y = Inr s'" "vec_x s' = x"
       "vec_y s' = smoother ksp (dim (self_V ctx')) x (patches_of ctx' mats') (length y)"
    by auto
  from smoother_mset [OF assms(13)] s(3) s'(3) assms(7) have eq: "vec_y s = vec_y s'"
    by simp
  note k = PatchPC_apply_ksp [OF s(1) assms(11)] and k' = PatchPC_apply_ksp [OF s'(1) assms(12)]
  have A: "\<exists>s s'. PatchPC_apply ksp mc globals ctx x y = Inr s
            \<and> PatchPC_apply ksp mc' globals' ctx' x y = Inr s'
            \<and> vec_x s = x \<and> vec_x s' = x \<and> vec_y s = vec_y s'
            \<and> ksp_operators s = (if mats = [] then None else Some (last mats))
            \<and> ksp_operators s' = (if mats' = [] then None else Some (last mats'))"
    by (rule exI [of _ s], rule exI [of _ s']) (intro conjI, (rule s s' eq k k')+)
  have B: "\<forall>bsize im t t'. solve_patch ksp ctx bsize im t = Inr t' \<longrightarrow>
             vec_x t' = vec_x t \<and> vec_y t' = vec_y t \<and> (\<exists>ly. tmp_ys t' = tmp_ys t @ [ly])
             \<and> ksp_operators t' = Some (snd im)"
  proof (intro allI impI)
    fix bsize im and t t' :: "'a vecs"
    assume a: "solve_patch ksp ctx bsize im t = Inr t'"
    obtain i m where im: "im = (i, m)" by (cases im)
    with a have "solve_patch ksp ctx bsize (i, m) t = Inr t'" by simp
    from solve_patch_Inr [OF this] show "vec_x t' = vec_x t \<and> vec_y t' = vec_y t
        \<and> (\<exists>ly. tmp_ys t' = tmp_ys t @ [ly]) \<and> ksp_operators t' = Some (snd im)"
      by (auto simp: im)
  qed
  have C: "\<forall>bsize im (t :: 'a vecs) k.
             solve_patch ksp ctx bsize im (t\<lparr>ksp_operators := k\<rparr>) = solve_patch ksp ctx bsize im t"
    by (simp add: solve_patch_def)
  have D: "\<forall>bsize il (t :: 'a vecs) t'. add_patch ctx bsize il t = Inr t' \<longrightarrow>
             vec_x t' = vec_x t \<and> tmp_ys t' = tmp_ys t \<and> ksp_operators t' = ksp_operators t"
    using add_patch_frame by blast
  show ?thesis
    by (intro conjI) (rule A B C D)+
qed

theorem patch_order_independence_witness:
  "vec_y (projr (PatchPC_apply ksp_solve_ex matrix_callable_ex globals_ex ctx_ex
                   [1, 2, 3, 4, 5, 6] [9, 9, 9, 9, 9, 9]))
     = vec_y (projr (PatchPC_apply ksp_solve_ex matrix_callable_ex globals_ex ctx_perm_ex
                   [1, 2, 3, 4, 5, 6] [9, 9, 9, 9, 9, 9]))
   \<and> vec_x (projr (PatchPC_apply ksp_solve_ex matrix_callable_ex globals_ex ctx_perm_ex
                   [1, 2, 3, 4, 5, 6] [9, 9, 9, 9, 9, 9]))
     = [1, 2, 3, 4, 5, 6]
   \<and> ksp_operators (projr (PatchPC_apply ksp_solve_ex matrix_callable_ex globals_ex ctx_ex
                   [1, 2, 3, 4, 5, 6] [9, 9, 9, 9, 9, 9]))
     = Some (patch_mat_ex 2 [0, 1])
   \<and> ksp_operators (projr (PatchPC_apply ksp_solve_ex matrix_callable_ex globals_ex ctx_perm_ex
                   [1, 2, 3, 4, 5, 6] [9, 9, 9, 9, 9, 9]))
     = Some (patch_mat_ex 4 [2, 3])
   \<and> map (\<lambda>P. fst (snd P))
         (patches_of ctx_ex (projr (matrices matrix_callable_ex globals_ex ctx_ex)))
     = [[0, 1], [1, 2], [2]]
   \<and> map (\<lambda>P. fst (snd P))
         (patches_of ctx_perm_ex (projr (matrices matrix_callable_ex globals_ex ctx_perm_ex)))
     = [[2], [0, 1], [1, 2]]"
proof -
  let ?x = "[1, 2, 3, 4, 5, 6] :: real list" and ?y = "[9, 9, 9, 9, 9, 9] :: real list"
  let ?V = "VectorFunctionSpace_ex ''interval'' ''CG'' 2 2"
  let ?a = "PatchPC_apply ksp_solve_ex matrix_callable_ex globals_ex ctx_ex ?x ?y"
  let ?a' = "PatchPC_apply ksp_solve_ex matrix_callable_ex globals_ex ctx_perm_ex ?x ?y"
  let ?m = "projr (matrices matrix_callable_ex globals_ex ctx_ex)"
  let ?m' = "projr (matrices matrix_callable_ex globals_ex ctx_perm_ex)"
  have h: "globals_ex ''V'' = Some ?V" "cdim ?V = dim (self_V ctx_ex)"
    "cdim ?V = dim (self_V ctx_perm_ex)" "dim (self_V ctx_perm_ex) = dim (self_V ctx_ex)"
    "length ?x = 3 * dim (self_V ctx_ex)" "length ?y = 3 * dim (self_V ctx_ex)"
    by (simp_all add: globals_ex_def ctx_perm_ex_def ctx_ex_def VectorFunctionSpace_ex_def)
  from patch_order_independence [where mc = matrix_callable_ex and mc' = matrix_callable_ex
      and ksp = ksp_solve_ex and globals = globals_ex and globals' = globals_ex
      and Vg = ?V and Vg' = ?V and ctx = ctx_ex and ctx' = ctx_perm_ex and N = 3
      and x = ?x and y = ?y,
      OF well_formed_ctx_ex well_formed_ctx_perm_ex h(1) h(1) h(2) h(3) h(4) h(5) h(6)
         ksp_solve_ex_length matrices_ctx_ex matrices_ctx_perm_ex patches_perm_ex]
  obtain s s' where r: "?a = Inr s" "?a' = Inr s'" "vec_x s' = ?x" "vec_y s = vec_y s'"
    "ksp_operators s = (if ?m = [] then None else Some (last ?m))"
    "ksp_operators s' = (if ?m' = [] then None else Some (last ?m'))"
    by blast
  then have 1: "vec_y (projr ?a) = vec_y (projr ?a')" "vec_x (projr ?a') = ?x"
    by simp_all
  from r(1,5) have 2: "ksp_operators (projr ?a) = Some (patch_mat_ex 2 [0, 1])"
    by (simp add: matrices_ctx_ex_value)
  from r(2,6) have 3: "ksp_operators (projr ?a') = Some (patch_mat_ex 4 [2, 3])"
    by (simp add: matrices_ctx_perm_ex_value)
  have 4: "map (\<lambda>P. fst (snd P)) (patches_of ctx_ex ?m) = [[0, 1], [1, 2], [2]]"
    by (simp add: patches_ctx_ex)
  have 5: "map (\<lambda>P. fst (snd P)) (patches_of ctx_perm_ex ?m') = [[2], [0, 1], [1, 2]]"
    by (simp add: patches_ctx_perm_ex)
  show ?thesis
    by (intro conjI) (rule 1 2 3 4 5)+
qed

text \<open>
  Claim C8 as worded, for the floating-point numbers of the code.  The two contexts over
  the star are well formed and enumerate the same three patches in two orders, the solver
  is the same and solves every patch system exactly, and \<^verbatim>\<open>PatchPC.apply\<close> returns on both.
  The local solutions add \<open>2\<^sup>6\<^sup>0\<close>, \<open>- 2\<^sup>6\<^sup>0\<close> and \<open>1\<close> to entry 0 of the output, in the order
  of the patches: the first order gives \<open>((0 + 2\<^sup>6\<^sup>0) - 2\<^sup>6\<^sup>0) + 1 = 1\<close>, the second
  \<open>((0 + 1) + 2\<^sup>6\<^sup>0) - 2\<^sup>6\<^sup>0 = 0\<close>, since \<open>1 + 2\<^sup>6\<^sup>0\<close> rounds to \<open>2\<^sup>6\<^sup>0\<close>.  So the two outputs
  differ.  Also, the first patch solve changes the shared solver: it finds it without an
  operator and leaves it with the patch matrix.
\<close>

theorem patch_order_dependence_float64:
  "well_formed ctx_star 4 \<and> well_formed ctx_star_perm 4
   \<and> globals_star ''V'' = Some (self_V ctx_star)
   \<and> self_V ctx_star_perm = self_V ctx_star
   \<and> length x_star = 4 * dim (self_V ctx_star)
   \<and> (\<forall>m b l. length (ksp_solve_perm m b l) = length l)
   \<and> matrices matrix_callable_swap globals_star ctx_star = Inr [swap_mat, swap_mat, swap_mat]
   \<and> matrices matrix_callable_swap globals_star ctx_star_perm = Inr [swap_mat, swap_mat, swap_mat]
   \<and> patches_of ctx_star [swap_mat, swap_mat, swap_mat]
       = [(swap_mat, [0, 1], []), (swap_mat, [0, 2], []), (swap_mat, [0, 3], [])]
   \<and> patches_of ctx_star_perm [swap_mat, swap_mat, swap_mat]
       = [(swap_mat, [0, 3], []), (swap_mat, [0, 1], []), (swap_mat, [0, 2], [])]
   \<and> mset (patches_of ctx_star [swap_mat, swap_mat, swap_mat])
       = mset (patches_of ctx_star_perm [swap_mat, swap_mat, swap_mat])
   \<and> PatchPC_apply ksp_solve_perm matrix_callable_swap globals_star ctx_star x_star [0, 0, 0, 0]
       = Inr \<lparr>vec_x = x_star, vec_y = [Float64 1, Float64 0, Float64 0, Float64 0],
              tmp_ys = [[Float64 (2 ^ 60), Float64 0], [Float64 (- (2 ^ 60)), Float64 0],
                        [Float64 1, Float64 0]],
              ksp_operators = Some swap_mat\<rparr>
   \<and> PatchPC_apply ksp_solve_perm matrix_callable_swap globals_star ctx_star_perm x_star [0, 0, 0, 0]
       = Inr \<lparr>vec_x = x_star, vec_y = [Float64 0, Float64 0, Float64 0, Float64 0],
              tmp_ys = [[Float64 1, Float64 0], [Float64 (2 ^ 60), Float64 0],
                        [Float64 (- (2 ^ 60)), Float64 0]],
              ksp_operators = Some swap_mat\<rparr>
   \<and> vec_y (projr (PatchPC_apply ksp_solve_perm matrix_callable_swap globals_star ctx_star
                     x_star [0, 0, 0, 0]))
       \<noteq> vec_y (projr (PatchPC_apply ksp_solve_perm matrix_callable_swap globals_star ctx_star_perm
                     x_star [0, 0, 0, 0]))
   \<and> ksp_operators (projr (solve_patch ksp_solve_perm ctx_star 1 (0, swap_mat)
         \<lparr>vec_x = x_star, vec_y = [0, 0, 0, 0], tmp_ys = [], ksp_operators = None\<rparr>))
       = Some swap_mat"
proof -
  have 1: "globals_star ''V'' = Some (self_V ctx_star)" "self_V ctx_star_perm = self_V ctx_star"
    "length x_star = 4 * dim (self_V ctx_star)"
    by (simp_all add: globals_star_def ctx_star_perm_def ctx_star_def x_star_def FunctionSpace_ex_def)
  have 2: "\<forall>m b l. length (ksp_solve_perm m b l) = length l"
    by (simp add: ksp_solve_perm_def)
  have 3: "mset (patches_of ctx_star [swap_mat, swap_mat, swap_mat])
       = mset (patches_of ctx_star_perm [swap_mat, swap_mat, swap_mat])"
    unfolding patches_ctx_star patches_ctx_star_perm by (simp add: add_mset_commute)
  have 4: "vec_y (projr (PatchPC_apply ksp_solve_perm matrix_callable_swap globals_star ctx_star
                     x_star [0, 0, 0, 0]))
       \<noteq> vec_y (projr (PatchPC_apply ksp_solve_perm matrix_callable_swap globals_star ctx_star_perm
                     x_star [0, 0, 0, 0]))"
    unfolding apply_star apply_star_perm by simp
  have 5: "ksp_operators (projr (solve_patch ksp_solve_perm ctx_star 1 (0, swap_mat)
         \<lparr>vec_x = x_star, vec_y = [0, 0, 0, 0], tmp_ys = [], ksp_operators = None\<rparr>))
       = Some swap_mat"
    by (simp add: solve_patch_def build_rhs_def reshape_def take_rows_def broadcast_rows_def
          set_rows_zero_def ctx_star_def x_star_def index_def patch_slice_def py_slice_def
          Let_def upt_rec replicate_2)
  show ?thesis
    by (intro conjI) (rule well_formed_ctx_star well_formed_ctx_star_perm 1 2 matrices_ctx_star
        matrices_ctx_star_perm patches_ctx_star patches_ctx_star_perm 3 apply_star apply_star_perm 4 5)+
qed


text \<open>
  Claim C6.  Let patch \<open>k\<close> of a well-formed context have every local dof boundary-fixed,
  and let the solver return a solution of that patch's system for the zero right-hand
  side.  Then \<^verbatim>\<open>PatchPC.apply\<close> returns (it does not raise); the patch matrix is the
  identity; the local right-hand side is the zero vector; the local solution is the zero
  vector; the patch adds zero to every entry of the output; and the output is the one
  the smoother gives with patch \<open>k\<close> left out.
\<close>

theorem degenerate_patch_contributes_zero:
  fixes x :: "'a::semiring_1 list"
  assumes "well_formed ctx N"
      and "globals ''V'' = Some Vg"
      and "cdim Vg = dim (self_V ctx)"
      and "length x = N * dim (self_V ctx)"
      and "length y = N * dim (self_V ctx)"
      and "\<forall>m b l. length (ksp m b l) = length l"
      and "matrices mc globals ctx = Inr mats"
      and "k < length mats"
      and "patch_slice (glob_patches ctx) k = Inr pd"
      and "patch_slice (bc_patches ctx) k = Inr bc"
      and "\<forall>j<length pd. j \<in> set bc"
      and "matvec (mats ! k)
             (ksp (mats ! k) (replicate (nrows (mats ! k)) 0) (replicate (ncols (mats ! k)) 0))
           = replicate (nrows (mats ! k)) 0"
  shows "(\<exists>s'. PatchPC_apply ksp mc globals ctx x y = Inr s'
            \<and> vec_y s' = smoother ksp (dim (self_V ctx)) x
                  (take k (patches_of ctx mats) @ drop (Suc k) (patches_of ctx mats)) (length y))
       \<and> (\<forall>i<nrows (mats ! k). \<forall>j<ncols (mats ! k).
             entry (mats ! k) i j = (if i = j then 1 else 0))
       \<and> local_rhs (dim (self_V ctx)) x pd bc = replicate (nrows (mats ! k)) 0
       \<and> ksp (mats ! k) (local_rhs (dim (self_V ctx)) x pd bc) (replicate (ncols (mats ! k)) 0)
           = replicate (ncols (mats ! k)) 0
       \<and> (\<forall>e. patch_correction ksp (dim (self_V ctx)) x (mats ! k, pd, bc) e = 0)"
proof -
  let ?bs = "dim (self_V ctx)"
  let ?M = "mats ! k"
  let ?ps = "patches_of ctx mats"
  from PatchPC_apply_total [where mc = mc and ksp = ksp and globals = globals and Vg = Vg
      and ctx = ctx and N = N and x = x and y = y, OF assms(1-6)] assms(7)
  obtain s' where
    lm: "length mats = length (offset (dof_patches ctx)) - 1" and
    app: "PatchPC_apply ksp mc globals ctx x y = Inr s'" and
    res: "vec_y s' = smoother ksp ?bs x ?ps (length y)"
    by auto
  have bs: "0 < ?bs"
    using assms(1) by (simp add: well_formed_def Let_def)
  from assms(2,3,7,8) have pm: "patch_matrix mc ?bs ctx k = Inr ?M"
    by (auto simp: matrices_def map_err_Inr_iff)
  from patch_matrix_Inr [OF pm] have
    nM: "nrows ?M = (offset (glob_patches ctx) ! (k + 1) - offset (glob_patches ctx) ! k) * ?bs"
    and sq: "ncols ?M = nrows ?M"
    by blast+
  from well_formedD(7) [OF assms(1), of k] assms(8,9) lm have
    lpd: "length pd = offset (glob_patches ctx) ! (k + 1) - offset (glob_patches ctx) ! k"
    by auto
  from nM lpd have n: "nrows ?M = length pd * ?bs"
    by simp
  from identity_of_degenerate [OF pm assms(10) n bs assms(11)]
  have id: "\<forall>i<nrows ?M. \<forall>j. entry ?M i j = (if i = j then 1 else 0)" .
  then have id': "\<forall>i<nrows ?M. \<forall>j<ncols ?M. entry ?M i j = (if i = j then 1 else 0)"
    by blast
  have rhs: "local_rhs ?bs x pd bc = replicate (nrows ?M) 0"
    using local_rhs_all_bc [OF assms(11)] by (simp add: n)
  let ?ly = "ksp ?M (replicate (nrows ?M) 0) (replicate (ncols ?M) 0)"
  have "length ?ly = nrows ?M"
    using assms(6) sq by simp
  from matvec_identity [OF id' sq this] assms(12) have ly: "?ly = replicate (ncols ?M) 0"
    by (simp add: sq)
  then have sol: "ksp ?M (local_rhs ?bs x pd bc) (replicate (ncols ?M) 0) = replicate (ncols ?M) 0"
    by (simp add: rhs)
  have zero: "patch_correction ksp ?bs x (?M, pd, bc) e = 0" for e
  proof -
    have "patch_correction ksp ?bs x (?M, pd, bc) e
        = scatter_term ?bs pd (ksp ?M (local_rhs ?bs x pd bc) (replicate (ncols ?M) 0)) e"
      by (simp add: patch_correction_def)
    also have "\<dots> = scatter_term ?bs pd (replicate (ncols ?M) 0) e"
      by (simp only: sol)
    also have "\<dots> = scatter_term ?bs pd (replicate (length pd * ?bs) 0) e"
      by (simp only: sq n)
    also have "\<dots> = 0"
      using bs by (rule scatter_term_zero)
    finally show ?thesis .
  qed
  have "?ps ! k = (?M, pd, bc)"
    using assms(8,9,10) by (simp add: patches_of_def)
  with zero have "\<forall>e. patch_correction ksp ?bs x (?ps ! k) e = 0"
    by simp
  moreover have "k < length ?ps"
    using assms(8) by (simp add: patches_of_def)
  ultimately have "smoother ksp ?bs x ?ps (length y)
      = smoother ksp ?bs x (take k ?ps @ drop (Suc k) ?ps) (length y)"
    by (intro smoother_without)
  with app res have A: "\<exists>s'. PatchPC_apply ksp mc globals ctx x y = Inr s'
            \<and> vec_y s' = smoother ksp ?bs x (take k ?ps @ drop (Suc k) ?ps) (length y)"
    by simp
  from zero have Z: "\<forall>e. patch_correction ksp ?bs x (?M, pd, bc) e = 0"
    by blast
  show ?thesis
    by (intro conjI) (rule A id' rhs sol Z)+
qed

theorem degenerate_patch_contributes_zero_witness:
  "vec_y (projr (PatchPC_apply ksp_solve_ex matrix_callable_ex globals_ex ctx_ex
                   [1, 2, 3, 4, 5, 6] [9, 9, 9, 9, 9, 9]))
     = smoother ksp_solve_ex 2 [1, 2, 3, 4, 5, 6]
         [(patch_mat_ex 4 [0, 1], [0, 1], [0]), (patch_mat_ex 4 [2, 3], [1, 2], [1])] 6
   \<and> local_rhs 2 [1, 2, 3, 4, 5, 6] [2] [0] = [0, 0 :: real]
   \<and> ksp_solve_ex (patch_mat_ex 2 [0, 1]) (local_rhs 2 [1, 2, 3, 4, 5, 6] [2] [0]) [0, 0] = [0, 0]
   \<and> entry (patch_mat_ex 2 [0, 1]) 0 0 = 1 \<and> entry (patch_mat_ex 2 [0, 1]) 0 1 = 0
   \<and> entry (patch_mat_ex 2 [0, 1]) 1 0 = 0 \<and> entry (patch_mat_ex 2 [0, 1]) 1 1 = 1"
proof -
  let ?x = "[1, 2, 3, 4, 5, 6] :: real list" and ?y = "[9, 9, 9, 9, 9, 9] :: real list"
  let ?V = "VectorFunctionSpace_ex ''interval'' ''CG'' 2 2"
  let ?a = "PatchPC_apply ksp_solve_ex matrix_callable_ex globals_ex ctx_ex ?x ?y"
  let ?mats = "projr (matrices matrix_callable_ex globals_ex ctx_ex)"
  have h: "globals_ex ''V'' = Some ?V" "cdim ?V = dim (self_V ctx_ex)"
    "length ?x = 3 * dim (self_V ctx_ex)" "length ?y = 3 * dim (self_V ctx_ex)"
    by (simp_all add: globals_ex_def ctx_ex_def VectorFunctionSpace_ex_def)
  have d: "dim (self_V ctx_ex) = 2"
    by (simp add: ctx_ex_def VectorFunctionSpace_ex_def)
  have M: "?mats ! 2 = patch_mat_ex 2 [0, 1]" and k: "2 < length ?mats"
    by (simp_all add: matrices_ctx_ex_value)
  have sl: "patch_slice (glob_patches ctx_ex) 2 = Inr [2]" "patch_slice (bc_patches ctx_ex) 2 = Inr [0]"
    by (simp_all add: ctx_ex_def patch_slice_def index_def py_slice_def)
  have deg: "\<forall>j<length [2::nat]. j \<in> set [0::nat]"
    by simp
  have n: "nrows (patch_mat_ex 2 [0, 1]) = 2" "ncols (patch_mat_ex 2 [0, 1]) = 2"
    by (simp_all add: patch_mat_ex_def)
  have solves: "matvec (?mats ! 2)
             (ksp_solve_ex (?mats ! 2) (replicate (nrows (?mats ! 2)) 0) (replicate (ncols (?mats ! 2)) 0))
           = replicate (nrows (?mats ! 2)) 0"
    unfolding M n
    by (simp add: matvec_def ksp_solve_ex_def patch_mat_ex_def replicate_2 upt_rec)
  note T = degenerate_patch_contributes_zero [where mc = matrix_callable_ex and ksp = ksp_solve_ex
      and globals = globals_ex and Vg = ?V and ctx = ctx_ex and N = 3 and x = ?x and y = ?y
      and mats = ?mats and k = 2 and pd = "[2]" and bc = "[0]",
      OF well_formed_ctx_ex h ksp_solve_ex_length matrices_ctx_ex k sl deg solves]
  from T obtain s' where s': "?a = Inr s'"
    "vec_y s' = smoother ksp_solve_ex (dim (self_V ctx_ex)) ?x
        (take 2 (patches_of ctx_ex ?mats) @ drop (Suc 2) (patches_of ctx_ex ?mats)) (length ?y)"
    by blast
  then have 1: "vec_y (projr ?a) = smoother ksp_solve_ex 2 ?x
         [(patch_mat_ex 4 [0, 1], [0, 1], [0]), (patch_mat_ex 4 [2, 3], [1, 2], [1])] 6"
    by (simp add: d patches_ctx_ex eval_nat_numeral)
  note T' = T [THEN conjunct2, unfolded d M n]
  from T' [THEN conjunct2, THEN conjunct1]
  have 2: "local_rhs 2 ?x [2] [0] = [0, 0]"
    by (simp only: replicate_2)
  from T' [THEN conjunct2, THEN conjunct2, THEN conjunct1]
  have 3: "ksp_solve_ex (patch_mat_ex 2 [0, 1]) (local_rhs 2 ?x [2] [0]) [0, 0] = [0, 0]"
    by (simp only: replicate_2)
  from T' [THEN conjunct1]
  have 4: "entry (patch_mat_ex 2 [0, 1]) 0 0 = 1 \<and> entry (patch_mat_ex 2 [0, 1]) 0 1 = 0
   \<and> entry (patch_mat_ex 2 [0, 1]) 1 0 = 0 \<and> entry (patch_mat_ex 2 [0, 1]) 1 1 = 1"
    by simp
  from 1 2 3 4 show ?thesis
    by blast
qed


end
